theory Spec2Isabelle
  imports Main
begin

section \<open>Python strings and exceptions\<close>

text \<open>
  A Python \<open>str\<close> is modelled as a \<open>string\<close>: a list of characters, each one a code point
  in the range 0..255. Exceptions are values of the type \<open>exn\<close>; a function that may raise
  returns \<open>exn + 'a\<close>, with \<open>Inl\<close> for the raised exception.
\<close>

datatype exn =
    ValueError
  | IndexError
  | FileNotFoundError
  | ProviderError
  | DatabaseError
  | TypeError
  | HTTPException nat

text \<open>
  \<open>str.isspace\<close> on one character: the code points 9..13, 28..32, 133 and 160 are the
  whitespace characters below 256.
\<close>

definition py_isspace :: "char \<Rightarrow> bool" where
  "py_isspace c = ((of_char c :: nat) \<in> {9, 10, 11, 12, 13, 28, 29, 30, 31, 32, 133, 160})"

text \<open>
  \<open>str.split()\<close> without a separator: runs of whitespace separate the words, and no
  empty word is produced. \<open>cur\<close> is the word being read.
\<close>

fun py_split_aux :: "string \<Rightarrow> string \<Rightarrow> string list" where
  "py_split_aux cur [] = (if cur = [] then [] else [cur])"
| "py_split_aux cur (c # cs) =
     (if py_isspace c
      then (if cur = [] then py_split_aux [] cs else cur # py_split_aux [] cs)
      else py_split_aux (cur @ [c]) cs)"

definition py_split :: "string \<Rightarrow> string list" where
  "py_split s = py_split_aux [] s"

text \<open>\<open>sep.join(xs)\<close>.\<close>

fun py_join :: "string \<Rightarrow> string list \<Rightarrow> string" where
  "py_join sep [] = []"
| "py_join sep [x] = x"
| "py_join sep (x # y # ys) = x @ sep @ py_join sep (y # ys)"

text \<open>\<open>range(i, stop, step)\<close> for a positive step, as the list of its values.\<close>

function py_range :: "nat \<Rightarrow> nat \<Rightarrow> nat \<Rightarrow> nat list" where
  "py_range i stop step =
     (if step = 0 \<or> stop \<le> i then [] else i # py_range (i + step) stop step)"
  by pat_completeness auto
termination
  by (relation "measure (\<lambda>(i, stop, step). stop - i)") auto

declare py_range.simps [simp del]

section \<open>DocumentParser.chunk\_text\<close>

text \<open>
  \<open>words[i:i + chunk_size]\<close> for \<open>i\<close> in \<open>range(0, len(words), chunk_size)\<close>, for a positive
  chunk size.
\<close>

definition word_groups :: "string list \<Rightarrow> nat \<Rightarrow> string list list" where
  "word_groups ws n = map (\<lambda>i. take n (drop i ws)) (py_range 0 (length ws) n)"

text \<open>
  \<open>chunk_text(text, chunk_size)\<close>. A chunk size of zero makes \<open>range\<close> raise, which the
  function turns into a \<open>ValueError\<close>; a negative chunk size gives an empty range and
  so no chunk at all.
\<close>

definition chunk_text :: "string \<Rightarrow> int \<Rightarrow> exn + string list" where
  "chunk_text text chunk_size =
     (let ws = py_split text in
      if chunk_size = 0 then Inl ValueError
      else if chunk_size < 0 then Inr []
      else Inr (map (py_join '' '') (word_groups ws (nat chunk_size))))"

text \<open>The number of words of a chunk: \<open>len(chunk.split())\<close>.\<close>

definition word_count :: "string \<Rightarrow> nat" where
  "word_count s = length (py_split s)"

text \<open>A word is a non-empty string without whitespace.\<close>

definition is_word :: "string \<Rightarrow> bool" where
  "is_word w = (w \<noteq> [] \<and> (\<forall>c \<in> set w. \<not> py_isspace c))"

section \<open>RagService: the retrieval step\<close>

text \<open>
  \<open>chunks[i]\<close> on a Python list: the position read, where a negative index counts from
  the end and an index out of range raises \<open>IndexError\<close>.
\<close>

definition py_index :: "'a list \<Rightarrow> int \<Rightarrow> exn + nat" where
  "py_index xs i =
     (let n = int (length xs); j = (if i < 0 then n + i else i)
      in if 0 \<le> j \<and> j < n then Inr (nat j) else Inl IndexError)"

text \<open>
  The positions read by \<open>[chunks[i] for i in indices[0] if i < len(chunks)]\<close>, in the
  order of the labels.
\<close>

fun selected_positions :: "string list \<Rightarrow> int list \<Rightarrow> exn + nat list" where
  "selected_positions chunks [] = Inr []"
| "selected_positions chunks (i # labels) =
     (if i < int (length chunks)
      then (case py_index chunks i of
              Inl e \<Rightarrow> Inl e
            | Inr p \<Rightarrow> (case selected_positions chunks labels of
                          Inl e \<Rightarrow> Inl e
                        | Inr ps \<Rightarrow> Inr (p # ps)))
      else selected_positions chunks labels)"

text \<open>
  The retrieval step of \<open>rag_query\<close> and of \<open>rag_query_by_job\<close> (the two functions run the
  same statements on the chunk list they loaded). \<open>search k\<close> is what
  \<open>index.search(np.array([query_embedding]), k)\<close> gives for the row of the one query: the
  labels of the neighbours, or the exception it raises. The step returns the positions it
  read and the chunks found there; an empty selection raises the 404 error.
\<close>

definition retrieve_chunks ::
    "(nat \<Rightarrow> exn + int list) \<Rightarrow> string list \<Rightarrow> exn + (nat list \<times> string list)" where
  "retrieve_chunks search chunks =
     (case search (min 5 (length chunks)) of
        Inl e \<Rightarrow> Inl e
      | Inr labels \<Rightarrow>
          (case selected_positions chunks labels of
             Inl e \<Rightarrow> Inl e
           | Inr ps \<Rightarrow>
               if ps = [] then Inl (HTTPException 404)
               else Inr (ps, map (\<lambda>p. chunks ! p) ps)))"

section \<open>The database\<close>

text \<open>
  The rows of the four tables. A nullable column is an \<open>option\<close>. The message of an
  activity log entry and the timestamps are not modelled; \<open>completed_at\<close> records only
  whether it has been set.
\<close>

record job =
  job_id :: nat
  job_name :: string
  status :: string
  job_type :: string
  file_count :: nat
  document_count :: nat
  completed_at :: bool

record document =
  doc_job_id :: nat
  blob_path :: string
  file_type :: string
  jsonl_blob_path :: "string option"
  faiss_index_blob_path :: "string option"
  chunks_blob_path :: "string option"
  is_aggregated :: bool

record fine_tuned_model =
  ftm_id :: nat
  ftm_job_id :: nat
  openai_model_id :: "string option"
  openai_job_id :: "string option"

record job_activity_log =
  log_job_id :: nat
  event_type :: string

text \<open>
  A session holds the committed tables and the changes made since the last commit: the
  objects added with \<open>db.add\<close> and the attribute assignments on loaded rows. Each table is
  the list of its rows in the order in which a query without \<open>ORDER BY\<close> returns them, the
  order of insertion.
\<close>

datatype change =
    Insert_job job
  | Insert_document document
  | Insert_model fine_tuned_model
  | Insert_log job_activity_log
  | Update_job job
  | Update_model fine_tuned_model

record db =
  jobs :: "job list"
  documents :: "document list"
  finetuned_models :: "fine_tuned_model list"
  activity :: "job_activity_log list"
  pending :: "change list"

fun apply_change :: "change \<Rightarrow> db \<Rightarrow> db" where
  "apply_change (Insert_job j) d = d\<lparr>jobs := jobs d @ [j]\<rparr>"
| "apply_change (Insert_document x) d = d\<lparr>documents := documents d @ [x]\<rparr>"
| "apply_change (Insert_model m) d = d\<lparr>finetuned_models := finetuned_models d @ [m]\<rparr>"
| "apply_change (Insert_log l) d = d\<lparr>activity := activity d @ [l]\<rparr>"
| "apply_change (Update_job j) d =
     d\<lparr>jobs := map (\<lambda>r. if job_id r = job_id j then j else r) (jobs d)\<rparr>"
| "apply_change (Update_model m) d =
     d\<lparr>finetuned_models := map (\<lambda>r. if ftm_id r = ftm_id m then m else r) (finetuned_models d)\<rparr>"

definition db_add :: "change \<Rightarrow> db \<Rightarrow> db" where
  "db_add c d = d\<lparr>pending := pending d @ [c]\<rparr>"

text \<open>
  \<open>db.commit()\<close>: \<open>ok\<close> tells whether the database accepts the transaction. A failed
  commit raises and leaves the changes pending, for the handler to roll back.
\<close>

definition db_commit :: "bool \<Rightarrow> db \<Rightarrow> (exn + unit) \<times> db" where
  "db_commit ok d =
     (if ok then (Inr (), (fold apply_change (pending d) d)\<lparr>pending := []\<rparr>)
      else (Inl DatabaseError, d))"

definition db_rollback :: "db \<Rightarrow> db" where
  "db_rollback d = d\<lparr>pending := []\<rparr>"

text \<open>\<open>query.filter(P).first()\<close>: the first row the query returns, without any ordering.\<close>

definition query_first :: "('a \<Rightarrow> bool) \<Rightarrow> 'a list \<Rightarrow> 'a option" where
  "query_first P rows = find P rows"

text \<open>
  \<open>query.filter(P).order_by(key.desc()).first()\<close>: the row with the greatest key among
  those that pass the filter.
\<close>

fun query_first_desc :: "('a \<Rightarrow> nat) \<Rightarrow> ('a \<Rightarrow> bool) \<Rightarrow> 'a list \<Rightarrow> 'a option" where
  "query_first_desc key P [] = None"
| "query_first_desc key P (r # rows) =
     (case query_first_desc key P rows of
        None \<Rightarrow> (if P r then Some r else None)
      | Some b \<Rightarrow> (if P r \<and> key b < key r then Some r else Some b))"

section \<open>JobLogger\<close>

text \<open>
  \<open>log_job_activity\<close>: add the entry and commit; a failure is rolled back and logged,
  never raised.
\<close>

definition log_job_activity :: "bool \<Rightarrow> nat \<Rightarrow> string \<Rightarrow> db \<Rightarrow> db" where
  "log_job_activity ok jid ev d =
     (case db_commit ok (db_add (Insert_log \<lparr>log_job_id = jid, event_type = ev\<rparr>) d) of
        (Inr _, d') \<Rightarrow> d'
      | (Inl _, d') \<Rightarrow> db_rollback d')"

section \<open>FinetuneService.check\_finetune\_status\<close>

text \<open>Python truthiness of a nullable string: \<open>None\<close> and the empty string are false.\<close>

definition truthy :: "string option \<Rightarrow> bool" where
  "truthy s = (case s of None \<Rightarrow> False | Some v \<Rightarrow> v \<noteq> [])"

text \<open>
  What the call depends on outside the program: the answer of the provider to
  \<open>fine_tuning.jobs.retrieve\<close> (the status and the model id, or an exception), and whether
  each commit is accepted.
\<close>

record status_env =
  retrieve :: "string \<Rightarrow> exn + (string \<times> string option)"
  log_status_ok :: bool
  commit_status_ok :: bool
  log_succeeded_ok :: bool
  commit_model_ok :: bool

text \<open>The dictionary returned by \<open>check_finetune_status\<close>.\<close>

datatype status_info =
    Not_run nat
  | Status_info nat "string option" string "string option"

text \<open>The query for the fine-tuned model of a job in \<open>check_finetune_status\<close>.\<close>

definition status_ft_model :: "nat \<Rightarrow> db \<Rightarrow> fine_tuned_model option" where
  "status_ft_model jid d = query_first (\<lambda>m. ftm_job_id m = jid) (finetuned_models d)"

text \<open>The query for the fine-tuned model of a job in \<open>ChatService\<close> and \<open>EvaluationService\<close>.\<close>

definition latest_ft_model :: "nat \<Rightarrow> db \<Rightarrow> fine_tuned_model option" where
  "latest_ft_model jid d = query_first_desc ftm_id (\<lambda>m. ftm_job_id m = jid) (finetuned_models d)"

definition update_model_id ::
    "status_env \<Rightarrow> nat \<Rightarrow> fine_tuned_model \<Rightarrow> string \<Rightarrow> string option \<Rightarrow> db \<Rightarrow> (exn + unit) \<times> db" where
  "update_model_id env jid ft new_status model_id d =
     (if new_status = ''succeeded'' \<and>
         (\<not> truthy (openai_model_id ft) \<or> openai_model_id ft \<noteq> model_id)
      then db_commit (commit_model_ok env)
             (db_add (Update_model (ft\<lparr>openai_model_id := model_id\<rparr>))
                (log_job_activity (log_succeeded_ok env) jid ''finetune_succeeded'' d))
      else (Inr (), d))"

definition update_job_status ::
    "status_env \<Rightarrow> nat \<Rightarrow> job \<Rightarrow> string \<Rightarrow> db \<Rightarrow> (exn + unit) \<times> db" where
  "update_job_status env jid j new_status d =
     (if status j \<noteq> new_status
      then db_commit (commit_status_ok env)
             (db_add (Update_job (j\<lparr>status := new_status\<rparr>))
                (log_job_activity (log_status_ok env) jid (''finetune_'' @ new_status) d))
      else (Inr (), d))"

definition check_finetune_status ::
    "status_env \<Rightarrow> nat \<Rightarrow> db \<Rightarrow> (exn + status_info) \<times> db" where
  "check_finetune_status env jid d =
     (case query_first (\<lambda>j. job_id j = jid) (jobs d) of
        None \<Rightarrow> (Inl (HTTPException 404), d)
      | Some j \<Rightarrow>
          (case status_ft_model jid d of
             None \<Rightarrow> (Inr (Not_run jid), d)
           | Some ft \<Rightarrow>
               if \<not> truthy (openai_job_id ft) then (Inr (Not_run jid), d)
               else
                 (case retrieve env (the (openai_job_id ft)) of
                    Inl e \<Rightarrow> (Inl e, d)
                  | Inr (new_status, model_id) \<Rightarrow>
                      (case update_job_status env jid j new_status d of
                         (Inl e, d1) \<Rightarrow> (Inl e, d1)
                       | (Inr _, d1) \<Rightarrow>
                           (case update_model_id env jid ft new_status model_id d1 of
                              (Inl e, d2) \<Rightarrow> (Inl e, d2)
                            | (Inr _, d2) \<Rightarrow>
                                (Inr (Status_info jid (openai_job_id ft) new_status model_id),
                                 d2))))))"

text \<open>
  A database with one job in fine-tuning and two fine-tuning attempts for it, and a
  provider where the first attempt has failed and the second one is running.
\<close>

definition two_attempts_db :: db where
  "two_attempts_db =
     \<lparr>jobs = [\<lparr>job_id = 1, job_name = ''demo'', status = ''finetune in progress'',
               job_type = ''process_document'', file_count = 1, document_count = 1,
               completed_at = True\<rparr>],
      documents = [],
      finetuned_models =
        [\<lparr>ftm_id = 1, ftm_job_id = 1, openai_model_id = None, openai_job_id = Some ''ftjob-a''\<rparr>,
         \<lparr>ftm_id = 2, ftm_job_id = 1, openai_model_id = None, openai_job_id = Some ''ftjob-b''\<rparr>],
      activity = [],
      pending = []\<rparr>"

definition two_attempts_env :: status_env where
  "two_attempts_env =
     \<lparr>retrieve = (\<lambda>h. if h = ''ftjob-a'' then Inr (''failed'', None)
                       else if h = ''ftjob-b'' then Inr (''running'', None)
                       else Inl ProviderError),
      log_status_ok = True, commit_status_ok = True,
      log_succeeded_ok = True, commit_model_ok = True\<rparr>"

section \<open>The json module\<close>

text \<open>
  \<open>json.dumps\<close> and \<open>json.loads\<close> belong to the standard library. They are modelled on the
  values the fallback path serialises (strings, lists and dictionaries with string keys)
  and, for \<open>json.loads\<close>, by the grammar the decoder accepts: the JSON grammar with the
  literals \<open>NaN\<close>, \<open>Infinity\<close> and \<open>-Infinity\<close>, in strict mode, with whitespace allowed
  around the value. The decoder's limits on nesting depth and on the number of digits of
  an integer are not modelled.
\<close>

datatype json = JString string | JArray "json list" | JObject "(string \<times> json) list"

definition dq :: char where
  "dq = CHR 0x22"

definition bs :: char where
  "bs = CHR 0x5C"

definition hex_digit :: "nat \<Rightarrow> char" where
  "hex_digit n = ''0123456789abcdef'' ! n"

text \<open>
  The replacement of one character by \<open>encode_basestring_ascii\<close>: the printable ASCII
  characters stand for themselves, except the quote and the backslash.
\<close>

definition escape_char :: "char \<Rightarrow> string" where
  "escape_char c =
     (if c = bs then [bs, bs]
      else if c = dq then [bs, dq]
      else if c = CHR 0x08 then [bs, CHR ''b'']
      else if c = CHR 0x0C then [bs, CHR ''f'']
      else if c = CHR 0x0A then [bs, CHR ''n'']
      else if c = CHR 0x0D then [bs, CHR ''r'']
      else if c = CHR 0x09 then [bs, CHR ''t'']
      else if 0x20 \<le> (of_char c :: nat) \<and> (of_char c :: nat) \<le> 0x7E then [c]
      else [bs, CHR ''u'', CHR ''0'', CHR ''0'',
            hex_digit (of_char c div 16), hex_digit (of_char c mod 16)])"

definition encode_string :: "string \<Rightarrow> string" where
  "encode_string s = dq # concat (map escape_char s) @ [dq]"

text \<open>\<open>json.dumps\<close> with its default separators.\<close>

fun json_dumps :: "json \<Rightarrow> string" where
  "json_dumps (JString s) = encode_string s"
| "json_dumps (JArray xs) = ''['' @ py_join '', '' (map json_dumps xs) @ '']''"
| "json_dumps (JObject kvs) =
     ''{'' @ py_join '', '' (map (\<lambda>(k, v). encode_string k @ '': '' @ json_dumps v) kvs) @ ''}''"

text \<open>One \<open>key: value\<close> item of a serialised dictionary.\<close>

definition dumps_member :: "string \<times> json \<Rightarrow> string" where
  "dumps_member kv = encode_string (fst kv) @ '': '' @ json_dumps (snd kv)"

definition json_ws :: "char \<Rightarrow> bool" where
  "json_ws c = (c = CHR '' '' \<or> c = CHR 0x09 \<or> c = CHR 0x0A \<or> c = CHR 0x0D)"

definition skip_ws :: "string \<Rightarrow> string" where
  "skip_ws s = dropWhile json_ws s"

definition is_digit :: "char \<Rightarrow> bool" where
  "is_digit c = (0x30 \<le> (of_char c :: nat) \<and> (of_char c :: nat) \<le> 0x39)"

definition is_hex :: "char \<Rightarrow> bool" where
  "is_hex c =
     (is_digit c \<or> (0x61 \<le> (of_char c :: nat) \<and> (of_char c :: nat) \<le> 0x66)
        \<or> (0x41 \<le> (of_char c :: nat) \<and> (of_char c :: nat) \<le> 0x46))"

text \<open>
  The body of a string after its opening quote, up to and including the closing quote;
  the result is the text that follows.
\<close>

fun scan_string :: "string \<Rightarrow> string option" where
  "scan_string [] = None"
| "scan_string (c # r) =
     (if c = dq then Some r
      else if c = bs then
        (case r of
           [] \<Rightarrow> None
         | e # r' \<Rightarrow>
             if e \<in> set [dq, bs, CHR ''/'', CHR ''b'', CHR ''f'', CHR ''n'', CHR ''r'', CHR ''t'']
             then scan_string r'
             else if e = CHR ''u'' then
               (case r' of
                  h1 # h2 # h3 # h4 # r'' \<Rightarrow>
                    if is_hex h1 \<and> is_hex h2 \<and> is_hex h3 \<and> is_hex h4 then scan_string r''
                    else None
                | _ \<Rightarrow> None)
             else None)
      else if (of_char c :: nat) < 0x20 then None
      else scan_string r)"

text \<open>
  A number: \<open>-?(0|[1-9][0-9]*)(\.[0-9]+)?([eE][-+]?[0-9]+)?\<close>, matched as far as it goes.
\<close>

definition scan_int_part :: "string \<Rightarrow> string option" where
  "scan_int_part s =
     (case s of
        [] \<Rightarrow> None
      | c # r \<Rightarrow>
          if c = CHR ''0'' then Some r
          else if is_digit c then Some (dropWhile is_digit r)
          else None)"

definition scan_frac_part :: "string \<Rightarrow> string" where
  "scan_frac_part s =
     (case s of
        c # d # r \<Rightarrow> if c = CHR ''.'' \<and> is_digit d then dropWhile is_digit r else s
      | _ \<Rightarrow> s)"

definition scan_exp_part :: "string \<Rightarrow> string" where
  "scan_exp_part s =
     (case s of
        c # r \<Rightarrow>
          if c = CHR ''e'' \<or> c = CHR ''E'' then
            (case r of
               d # r' \<Rightarrow>
                 if is_digit d then dropWhile is_digit r'
                 else if d = CHR ''+'' \<or> d = CHR ''-'' then
                   (case r' of
                      d' # r'' \<Rightarrow> if is_digit d' then dropWhile is_digit r'' else s
                    | [] \<Rightarrow> s)
                 else s
             | [] \<Rightarrow> s)
          else s
      | [] \<Rightarrow> s)"

definition scan_number :: "string \<Rightarrow> string option" where
  "scan_number s =
     (case scan_int_part (case s of c # r \<Rightarrow> if c = CHR ''-'' then r else s | [] \<Rightarrow> s) of
        None \<Rightarrow> None
      | Some r \<Rightarrow> Some (scan_exp_part (scan_frac_part r)))"

definition scan_literal :: "string \<Rightarrow> string \<Rightarrow> string option" where
  "scan_literal lit s = (if take (length lit) s = lit then Some (drop (length lit) s) else None)"

text \<open>
  One value at the head of the text, in the order in which the scanner tries the
  alternatives; the result is the text that follows the value. The first argument bounds
  the number of nested calls; \<open>json_valid\<close> starts with twice the length of the text.
\<close>

fun scan_value :: "nat \<Rightarrow> string \<Rightarrow> string option"
  and scan_elements :: "nat \<Rightarrow> string \<Rightarrow> string option"
  and scan_members :: "nat \<Rightarrow> string \<Rightarrow> string option" where
  "scan_value 0 s = None"
| "scan_value (Suc n) [] = None"
| "scan_value (Suc n) (c # r) =
     (if c = dq then scan_string r
      else if c = CHR ''{'' then
        (case skip_ws r of
           [] \<Rightarrow> None
         | c' # r' \<Rightarrow> if c' = CHR ''}'' then Some r' else scan_members n (c' # r'))
      else if c = CHR ''['' then
        (case skip_ws r of
           [] \<Rightarrow> None
         | c' # r' \<Rightarrow> if c' = CHR '']'' then Some r' else scan_elements n (c' # r'))
      else if c = CHR ''n'' \<and> scan_literal ''null'' (c # r) \<noteq> None then scan_literal ''null'' (c # r)
      else if c = CHR ''t'' \<and> scan_literal ''true'' (c # r) \<noteq> None then scan_literal ''true'' (c # r)
      else if c = CHR ''f'' \<and> scan_literal ''false'' (c # r) \<noteq> None then scan_literal ''false'' (c # r)
      else if scan_number (c # r) \<noteq> None then scan_number (c # r)
      else if c = CHR ''N'' then scan_literal ''NaN'' (c # r)
      else if c = CHR ''I'' then scan_literal ''Infinity'' (c # r)
      else if c = CHR ''-'' then scan_literal ''-Infinity'' (c # r)
      else None)"
| "scan_elements 0 s = None"
| "scan_elements (Suc n) s =
     (case scan_value n s of
        None \<Rightarrow> None
      | Some r \<Rightarrow>
          (case skip_ws r of
             [] \<Rightarrow> None
           | c # r' \<Rightarrow>
               if c = CHR '']'' then Some r'
               else if c = CHR '','' then scan_elements n (skip_ws r')
               else None))"
| "scan_members 0 s = None"
| "scan_members (Suc n) s =
     (case s of
        [] \<Rightarrow> None
      | q # r0 \<Rightarrow>
          if q \<noteq> dq then None
          else
            (case scan_string r0 of
               None \<Rightarrow> None
             | Some r1 \<Rightarrow>
                 (case skip_ws r1 of
                    [] \<Rightarrow> None
                  | c # r2 \<Rightarrow>
                      if c \<noteq> CHR '':'' then None
                      else
                        (case scan_value n (skip_ws r2) of
                           None \<Rightarrow> None
                         | Some r3 \<Rightarrow>
                             (case skip_ws r3 of
                                [] \<Rightarrow> None
                              | c' # r4 \<Rightarrow>
                                  if c' = CHR ''}'' then Some r4
                                  else if c' = CHR '','' then scan_members n (skip_ws r4)
                                  else None)))))"

text \<open>\<open>json.loads(s)\<close> returns rather than raising \<open>JSONDecodeError\<close>.\<close>

definition json_valid :: "string \<Rightarrow> bool" where
  "json_valid s =
     (case scan_value (Suc (2 * length s)) (skip_ws s) of
        None \<Rightarrow> False
      | Some r \<Rightarrow> skip_ws r = [])"

section \<open>SyntheticDataGenerator\<close>

definition LF :: char where
  "LF = CHR 0x0A"

text \<open>\<open>str.strip()\<close>, \<open>str.startswith\<close> and \<open>str.splitlines()\<close>.\<close>

definition py_strip :: "string \<Rightarrow> string" where
  "py_strip s = rev (dropWhile py_isspace (rev (dropWhile py_isspace s)))"

definition startswith :: "string \<Rightarrow> string \<Rightarrow> bool" where
  "startswith s p = (take (length p) s = p)"

text \<open>
  The line boundaries below 256: line feed, vertical tab, form feed, carriage return,
  the three separators 28..30 and the next-line character 133. A carriage return
  followed by a line feed is one boundary.
\<close>

definition is_linebreak :: "char \<Rightarrow> bool" where
  "is_linebreak c = ((of_char c :: nat) \<in> {10, 11, 12, 13, 28, 29, 30, 133})"

fun splitlines_aux :: "string \<Rightarrow> string \<Rightarrow> string list" where
  "splitlines_aux cur [] = (if cur = [] then [] else [cur])"
| "splitlines_aux cur (c # cs) =
     (if c = CHR 0x0D then
        (case cs of
           [] \<Rightarrow> cur # splitlines_aux [] cs
         | d # ds \<Rightarrow> if d = LF then cur # splitlines_aux [] ds else cur # splitlines_aux [] cs)
      else if is_linebreak c then cur # splitlines_aux [] cs
      else splitlines_aux (cur @ [c]) cs)"

definition py_splitlines :: "string \<Rightarrow> string list" where
  "py_splitlines s = splitlines_aux [] s"

definition fence :: string where
  "fence = [CHR 0x60, CHR 0x60, CHR 0x60]"

definition remove_markdown_fences :: "string \<Rightarrow> string" where
  "remove_markdown_fences text =
     (if startswith text fence then
        (let lines = py_splitlines text;
             lines1 = (if lines \<noteq> [] \<and> startswith (py_strip (hd lines)) fence
                       then tl lines else lines);
             lines2 = (if lines1 \<noteq> [] \<and> py_strip (last lines1) = fence
                       then butlast lines1 else lines1)
         in py_join [LF] lines2)
      else text)"

text \<open>
  What the generator depends on outside the program: \<open>completion i\<close> is the outcome of the
  call number \<open>i\<close> of the chat completion API, the content of the first choice or the
  exception raised on the way to it; \<open>canon line\<close> is \<open>json.dumps(json.loads(line))\<close> for a
  line that the decoder accepts; \<open>draw i\<close> is the number drawn by the call number \<open>i\<close> of
  \<open>random.choice\<close>, reduced to an index into the templates.
\<close>

record generator_env =
  completion :: "nat \<Rightarrow> exn + string"
  canon :: "string \<Rightarrow> string"
  draw :: "nat \<Rightarrow> nat"

text \<open>
  The body of the \<open>try\<close> of one attempt, from the raw response on. Writing the response
  to the log container has no effect on the result: \<open>_log_response\<close> catches what it raises.
\<close>

definition validate_response :: "(string \<Rightarrow> string) \<Rightarrow> string \<Rightarrow> exn + string" where
  "validate_response cn content =
     (let raw_response = py_strip content;
          jsonl_output = remove_markdown_fences raw_response;
          lines = filter (\<lambda>line. py_strip line \<noteq> []) (py_splitlines jsonl_output)
      in if length lines < 10 then Inl ValueError
         else if list_ex (\<lambda>line. \<not> json_valid line) lines then Inl ValueError
         else Inr (py_join [LF] (map cn lines)))"

definition run_attempt :: "generator_env \<Rightarrow> nat \<Rightarrow> exn + string" where
  "run_attempt env i =
     (case completion env i of
        Inl e \<Rightarrow> Inl e
      | Inr content \<Rightarrow> validate_response (canon env) content)"

text \<open>
  A fallback template is the list of its messages, each a role and a format string; a
  format string is written as the list of its pieces.
\<close>

datatype piece = Lit string | Input_text | Summary

definition fallback_templates :: "(string \<times> piece list) list list" where
  "fallback_templates =
     [[(''system'', [Lit ''You are a factual assistant that provides accurate answers.'']),
       (''user'', [Lit ''Please explain the following data: '', Input_text]),
       (''assistant'', [Lit ''Based on the data, it appears that '', Summary, Lit ''.''])],
      [(''system'', [Lit ''You are a helpful and knowledgeable assistant.'']),
       (''user'', [Lit ''What does the following information mean? '', Input_text]),
       (''assistant'', [Lit ''This information suggests that '', Summary, Lit ''.''])],
      [(''system'', [Lit ''You are a factual assistant.'']),
       (''user'', [Lit ''Summarize this data: '', Input_text]),
       (''assistant'', [Lit ''In summary, '', Summary, Lit ''.''])]]"

text \<open>\<open>content.format(input_text=input_text, summary=summary)\<close>.\<close>

fun format_piece :: "string \<Rightarrow> string \<Rightarrow> piece \<Rightarrow> string" where
  "format_piece input_text summary (Lit s) = s"
| "format_piece input_text summary Input_text = input_text"
| "format_piece input_text summary Summary = summary"

definition format_content :: "string \<Rightarrow> string \<Rightarrow> piece list \<Rightarrow> string" where
  "format_content input_text summary ps = concat (map (format_piece input_text summary) ps)"

definition fill_template :: "string \<Rightarrow> string \<Rightarrow> (string \<times> piece list) list \<Rightarrow> json" where
  "fill_template input_text summary template =
     JObject [(''messages'',
       JArray (map (\<lambda>msg. JObject [(''role'', JString (fst msg)),
                                     (''content'', JString (format_content input_text summary (snd msg)))])
                 template))]"

definition make_summary :: "string \<Rightarrow> string" where
  "make_summary input_text =
     (if length input_text \<le> 50 then input_text else take 50 input_text @ ''...'')"

definition fallback_line :: "string \<Rightarrow> nat \<Rightarrow> string" where
  "fallback_line input_text k =
     json_dumps (fill_template input_text (make_summary input_text)
                   (fallback_templates ! (k mod length fallback_templates)))"

text \<open>
  \<open>generate_fallback_jsonl\<close>: one line for each of \<open>range(min_examples)\<close>, then the check
  that \<open>json.loads\<close> accepts every line (a \<open>JSONDecodeError\<close> is a \<open>ValueError\<close>).
\<close>

definition generate_fallback_jsonl :: "(nat \<Rightarrow> nat) \<Rightarrow> string \<Rightarrow> int \<Rightarrow> exn + string" where
  "generate_fallback_jsonl rnd input_text min_examples =
     (let fallback_lines = map (\<lambda>i. fallback_line input_text (rnd i)) [0 ..< nat min_examples]
      in if list_ex (\<lambda>line. \<not> json_valid line) fallback_lines then Inl ValueError
         else Inr (py_join [LF] fallback_lines))"

definition build_input_text :: "string list \<Rightarrow> string" where
  "build_input_text chunks =
     (let input_text = py_join [LF] (map py_strip (filter (\<lambda>chunk. py_strip chunk \<noteq> []) chunks))
      in if input_text = []
         then ''Generic financial data: creditor details and personal info.''
         else input_text)"

text \<open>
  The loop \<open>while attempts < max_attempts\<close>. A successful attempt returns its lines; a
  failed one counts, and the last failure returns the fallback. When the loop is not
  entered the function returns \<open>None\<close>.
\<close>

function attempt_loop ::
    "generator_env \<Rightarrow> string \<Rightarrow> nat \<Rightarrow> nat \<Rightarrow> exn + string option" where
  "attempt_loop env input_text max_attempts attempts =
     (if attempts < max_attempts then
        (case run_attempt env attempts of
           Inr out \<Rightarrow> Inr (Some out)
         | Inl e \<Rightarrow>
             if max_attempts \<le> Suc attempts then
               (case generate_fallback_jsonl (draw env) input_text 10 of
                  Inl e' \<Rightarrow> Inl e'
                | Inr fallback_output \<Rightarrow> Inr (Some fallback_output))
             else attempt_loop env input_text max_attempts (Suc attempts))
      else Inr None)"
  by pat_completeness auto
termination
  by (relation "measure (\<lambda>(env, input_text, max_attempts, attempts). max_attempts - attempts)") auto

declare attempt_loop.simps [simp del]

definition generate_synthetic_jsonl ::
    "generator_env \<Rightarrow> string list \<Rightarrow> nat \<Rightarrow> exn + string option" where
  "generate_synthetic_jsonl env chunks max_attempts =
     attempt_loop env (build_input_text chunks) max_attempts 0"

text \<open>The printable ASCII characters, and a line as \<open>splitlines\<close> keeps it.\<close>

definition printable :: "char \<Rightarrow> bool" where
  "printable c = (0x20 \<le> (of_char c :: nat) \<and> (of_char c :: nat) \<le> 0x7E)"

definition is_line :: "string \<Rightarrow> bool" where
  "is_line l = (l \<noteq> [] \<and> (\<forall>c \<in> set l. \<not> is_linebreak c))"

text \<open>A completion service for which every attempt fails, each in another way.\<close>

definition failing_env :: generator_env where
  "failing_env =
     \<lparr>completion = (\<lambda>i. if i = 0 then Inl ProviderError
                          else if i = 1 then Inr (fence @ ''json'' @ [LF] @ ''{}'' @ [LF] @ fence)
                          else Inr (concat (replicate 10 (''{1}'' @ [LF])))),
      canon = (\<lambda>line. line),
      draw = (\<lambda>i. i)\<rparr>"

text \<open>Three streams of draws: always 0, always 1, always 3.\<close>

definition draws_zero :: "nat \<Rightarrow> nat" where
  "draws_zero i = 0"

definition draws_one :: "nat \<Rightarrow> nat" where
  "draws_one i = 1"

definition draws_three :: "nat \<Rightarrow> nat" where
  "draws_three i = 3"

section \<open>Blob storage\<close>

text \<open>
  The settings the storage functions read: whether a connection string is configured
  (the blob service client exists) and the local storage folder.
\<close>

record settings =
  azure :: bool
  local_storage_folder :: string

text \<open>\<open>os.path.join\<close> of two components and \<open>os.path.basename\<close>, for POSIX paths.\<close>

definition path_join :: "string \<Rightarrow> string \<Rightarrow> string" where
  "path_join a b =
     (if b \<noteq> [] \<and> hd b = CHR ''/'' then b
      else if a = [] \<or> last a = CHR ''/'' then a @ b
      else a @ ''/'' @ b)"

definition basename :: "string \<Rightarrow> string" where
  "basename p = rev (takeWhile (\<lambda>c. c \<noteq> CHR ''/'') (rev p))"

text \<open>
  The path \<open>upload_to_blob_async\<close> returns: \<open>container/blob_name\<close> for the blob service, the
  path of the file under the local storage folder otherwise.
\<close>

definition stored_path :: "settings \<Rightarrow> string \<Rightarrow> string \<Rightarrow> string" where
  "stored_path cfg container blob_name =
     (if azure cfg then container @ ''/'' @ blob_name
      else path_join (local_storage_folder cfg) blob_name)"

text \<open>
  \<open>upload_to_blob_async(data, blob_name, container)\<close>. \<open>io\<close> is the outcome of the storage
  operation itself, \<open>None\<close> when it succeeds. Empty data is refused before anything is
  stored.
\<close>

definition upload_to_blob_async ::
    "settings \<Rightarrow> exn option \<Rightarrow> string \<Rightarrow> string \<Rightarrow> string \<Rightarrow> exn + string" where
  "upload_to_blob_async cfg io data blob_name container =
     (if blob_name = [] then Inl ValueError
      else if container = [] then Inl ValueError
      else if data = [] then Inl ValueError
      else (case io of
              Some e \<Rightarrow> Inl e
            | None \<Rightarrow> Inr (stored_path cfg container blob_name)))"

text \<open>
  \<open>download_from_blob_async(blob_path, container)\<close>. \<open>present\<close> is what \<open>os.path.exists\<close>
  answers for the local file.
\<close>

definition download_from_blob_async ::
    "settings \<Rightarrow> exn option \<Rightarrow> bool \<Rightarrow> string \<Rightarrow> string \<Rightarrow> exn + string" where
  "download_from_blob_async cfg io present bpath container =
     (if bpath = [] then Inl ValueError
      else if container = [] then Inl ValueError
      else
        (let blob_name = (if startswith bpath (container @ ''/'')
                          then drop (length (container @ ''/'')) bpath else bpath)
         in if blob_name = [] then Inl ValueError
            else if azure cfg then
              (case io of
                 Some e \<Rightarrow> Inl e
               | None \<Rightarrow> Inr (path_join (local_storage_folder cfg) (basename blob_name)))
            else if \<not> present then Inl FileNotFoundError
            else Inr bpath))"

section \<open>UploadService\<close>

text \<open>\<open>str(n)\<close> for a row id.\<close>

fun string_of_nat :: "nat \<Rightarrow> string" where
  "string_of_nat n =
     (if n < 10 then [char_of (48 + n)]
      else string_of_nat (n div 10) @ [char_of (48 + n mod 10)])"

declare string_of_nat.simps [simp del]

text \<open>
  An uploaded file: its name, its declared media type and the bytes \<open>file.file.read()\<close>
  returns.
\<close>

record upload_file =
  filename :: string
  content_type :: string
  content :: string

text \<open>
  What the processing of one file depends on outside the program: the outcome of each
  storage operation, the text the extraction library returns for the file (\<open>None\<close> when it
  raises), the generator's environment, the outcome of the embedding calls and of writing
  the index, the path and the bytes of the index file, and whether each commit is
  accepted.
\<close>

record file_env =
  put_original :: "exn option"
  get_original :: "exn option"
  local_exists :: bool
  extracted :: "string option"
  generator :: generator_env
  put_jsonl :: "exn option"
  build_index :: "exn option"
  index_path :: string
  index_bytes :: "exn + string"
  put_faiss :: "exn option"
  put_chunks :: "exn option"
  log_started_ok :: bool
  commit_document_ok :: bool
  log_created_ok :: bool
  log_failed_ok :: bool

text \<open>\<open>DocumentParser._parse_file\<close>: the media types of the dispatch table.\<close>

definition supported_types :: "string list" where
  "supported_types =
     [''application/pdf'',
      ''application/vnd.openxmlformats-officedocument.wordprocessingml.document'',
      ''application/vnd.openxmlformats-officedocument.presentationml.presentation'',
      ''text/plain'',
      ''application/vnd.openxmlformats-officedocument.spreadsheetml.sheet'',
      ''text/csv'']"

definition parse_file :: "string option \<Rightarrow> string \<Rightarrow> exn + string" where
  "parse_file ext ftype =
     (if ftype \<in> set supported_types
      then (case ext of None \<Rightarrow> Inl ValueError | Some t \<Rightarrow> Inr t)
      else Inl ValueError)"

text \<open>
  \<open>DocumentParser.process_file\<close>: the artifacts are the JSONL string (\<open>None\<close> when there is
  no chunk) and the chunks.
\<close>

definition process_file :: "file_env \<Rightarrow> string \<Rightarrow> exn + (string option \<times> string list)" where
  "process_file env ftype =
     (case parse_file (extracted env) ftype of
        Inl e \<Rightarrow> Inl e
      | Inr t \<Rightarrow>
          (case chunk_text t 1000 of
             Inl e \<Rightarrow> Inl e
           | Inr chunks \<Rightarrow>
               if chunks \<noteq> [] then
                 (case generate_synthetic_jsonl (generator env) chunks 3 of
                    Inl e \<Rightarrow> Inl e
                  | Inr jsonl_str \<Rightarrow> Inr (jsonl_str, chunks))
               else Inr (None, chunks)))"

text \<open>
  \<open>RagService.create_faiss_index\<close>: no chunk gives \<open>(None, None)\<close>; any failure of the
  embedding calls or of the index is raised as a \<open>ValueError\<close>.
\<close>

definition create_faiss_index ::
    "exn option \<Rightarrow> string \<Rightarrow> string list \<Rightarrow> exn + (string \<times> string) option" where
  "create_faiss_index io path chunks =
     (if chunks = [] then Inr None
      else (case io of
              Some e \<Rightarrow> Inl ValueError
            | None \<Rightarrow> Inr (Some (path, json_dumps (JArray (map JString chunks))))))"

text \<open>
  The \<open>try\<close> block of \<open>_upload_artifacts\<close>: the index is built, read and uploaded, then the
  chunk list is uploaded. Whatever is raised is caught and logged, and the paths assigned
  so far are kept. Removing the local index file comes after both assignments.
\<close>

definition upload_index ::
    "settings \<Rightarrow> file_env \<Rightarrow> upload_file \<Rightarrow> nat \<Rightarrow> string list \<Rightarrow> string
       \<Rightarrow> string option \<times> string option" where
  "upload_index cfg env file jid chunks blob_folder =
     (case create_faiss_index (build_index env) (index_path env) chunks of
        Inl e \<Rightarrow> (None, None)
      | Inr None \<Rightarrow> (None, None)
      | Inr (Some (file_faiss_path, file_chunks_json)) \<Rightarrow>
          (case index_bytes env of
             Inl e \<Rightarrow> (None, None)
           | Inr file_content \<Rightarrow>
               (case upload_to_blob_async cfg (put_faiss env) file_content
                       (blob_folder @ ''/faiss/'' @ string_of_nat jid @ ''_'' @ filename file
                          @ ''_index.bin'') ''artifacts'' of
                  Inl e \<Rightarrow> (None, None)
                | Inr faiss_blob \<Rightarrow>
                    (case upload_to_blob_async cfg (put_chunks env) file_chunks_json
                            (blob_folder @ ''/chunks/'' @ string_of_nat jid @ ''_'' @ filename file
                               @ ''_chunks.json'') ''artifacts'' of
                       Inl e \<Rightarrow> (Some faiss_blob, None)
                     | Inr chunks_blob \<Rightarrow> (Some faiss_blob, Some chunks_blob)))))"

text \<open>
  The index of a file is stored when there are chunks, the embedding calls and the index
  succeed, the index file is read and is not empty, and its upload succeeds.
\<close>

definition index_stored :: "file_env \<Rightarrow> string list \<Rightarrow> bool" where
  "index_stored env chunks =
     (chunks \<noteq> [] \<and> build_index env = None \<and>
      (case index_bytes env of Inl e \<Rightarrow> False | Inr file_content \<Rightarrow> file_content \<noteq> []) \<and>
      put_faiss env = None)"

text \<open>The blob names of the three artifacts of a file.\<close>

definition jsonl_name :: "string \<Rightarrow> nat \<Rightarrow> upload_file \<Rightarrow> string" where
  "jsonl_name blob_folder jid file =
     blob_folder @ ''/jsonl/'' @ string_of_nat jid @ ''_'' @ filename file @ ''_combined.jsonl''"

definition faiss_name :: "string \<Rightarrow> nat \<Rightarrow> upload_file \<Rightarrow> string" where
  "faiss_name blob_folder jid file =
     blob_folder @ ''/faiss/'' @ string_of_nat jid @ ''_'' @ filename file @ ''_index.bin''"

definition chunks_name :: "string \<Rightarrow> nat \<Rightarrow> upload_file \<Rightarrow> string" where
  "chunks_name blob_folder jid file =
     blob_folder @ ''/chunks/'' @ string_of_nat jid @ ''_'' @ filename file @ ''_chunks.json''"

text \<open>\<open>_upload_artifacts\<close>: the paths of the JSONL, the index and the chunk list.\<close>

definition upload_artifacts ::
    "settings \<Rightarrow> file_env \<Rightarrow> upload_file \<Rightarrow> nat \<Rightarrow> string option \<times> string list \<Rightarrow> string
       \<Rightarrow> exn + (string option \<times> string option \<times> string option)" where
  "upload_artifacts cfg env file jid artifacts blob_folder =
     (case (if truthy (fst artifacts)
            then map_sum id Some
                   (upload_to_blob_async cfg (put_jsonl env) (the (fst artifacts))
                      (blob_folder @ ''/jsonl/'' @ string_of_nat jid @ ''_'' @ filename file
                         @ ''_combined.jsonl'') ''artifacts'')
            else Inr None) of
        Inl e \<Rightarrow> Inl e
      | Inr jsonl_blob \<Rightarrow>
          if snd artifacts \<noteq> []
          then Inr (jsonl_blob, upload_index cfg env file jid (snd artifacts) blob_folder)
          else Inr (jsonl_blob, None, None))"

text \<open>The row \<open>_create_document_record\<close> adds for a file.\<close>

definition file_document ::
    "nat \<Rightarrow> string \<Rightarrow> string \<Rightarrow> string option \<times> string option \<times> string option \<Rightarrow> document" where
  "file_document jid doc_blob_path ctype blobs =
     \<lparr>doc_job_id = jid, blob_path = doc_blob_path, file_type = ctype,
      jsonl_blob_path = fst blobs, faiss_index_blob_path = fst (snd blobs),
      chunks_blob_path = snd (snd blobs), is_aggregated = False\<rparr>"

definition create_document_record ::
    "file_env \<Rightarrow> nat \<Rightarrow> document \<Rightarrow> db \<Rightarrow> (exn + unit) \<times> db" where
  "create_document_record env jid doc d =
     (case db_commit (commit_document_ok env) (db_add (Insert_document doc) d) of
        (Inl e, d') \<Rightarrow> (Inl e, d')
      | (Inr u, d') \<Rightarrow> (Inr (), log_job_activity (log_created_ok env) jid ''document_created'' d'))"

text \<open>
  The statements of the \<open>try\<close> block of \<open>_process_files\<close> between the first log entry and
  the document record: the original is stored and fetched back, the file is parsed, the
  artifacts are uploaded. The result is the artifacts and the row to record.
\<close>

definition file_result ::
    "settings \<Rightarrow> nat \<Rightarrow> string \<Rightarrow> upload_file \<times> file_env
       \<Rightarrow> exn + ((string option \<times> string list) \<times> document)" where
  "file_result cfg jid blob_folder fe =
     (let file = fst fe; env = snd fe in
      case upload_to_blob_async cfg (put_original env) (content file)
             (blob_folder @ ''/'' @ filename file) ''documents'' of
        Inl e \<Rightarrow> Inl e
      | Inr doc_blob_path \<Rightarrow>
          (case download_from_blob_async cfg (get_original env) (local_exists env)
                  doc_blob_path ''documents'' of
             Inl e \<Rightarrow> Inl e
           | Inr local_file_path \<Rightarrow>
               if \<not> local_exists env then Inl FileNotFoundError
               else
                 (case process_file env (content_type file) of
                    Inl e \<Rightarrow> Inl e
                  | Inr artifacts \<Rightarrow>
                      (case upload_artifacts cfg env file jid artifacts blob_folder of
                         Inl e \<Rightarrow> Inl e
                       | Inr blobs \<Rightarrow>
                           Inr (artifacts,
                                file_document jid doc_blob_path (content_type file) blobs)))))"

text \<open>The \<open>try\<close> block of \<open>_process_files\<close> for one file.\<close>

definition try_file ::
    "settings \<Rightarrow> nat \<Rightarrow> string \<Rightarrow> upload_file \<times> file_env \<Rightarrow> db
       \<Rightarrow> (exn + (string option \<times> string list)) \<times> db" where
  "try_file cfg jid blob_folder fe d =
     (let d1 = log_job_activity (log_started_ok (snd fe)) jid ''file_upload_started'' d in
      case file_result cfg jid blob_folder fe of
        Inl e \<Rightarrow> (Inl e, d1)
      | Inr (artifacts, doc) \<Rightarrow>
          (case create_document_record (snd fe) jid doc d1 of
             (Inl e, d2) \<Rightarrow> (Inl e, d2)
           | (Inr u, d2) \<Rightarrow> (Inr artifacts, d2)))"

text \<open>
  The loop of \<open>_process_files\<close>, with the aggregated JSONL strings, the aggregated chunks
  and the document count. The handler of a failed file rolls back, logs and raises the
  HTTP error 500; the files after it are not processed.
\<close>

fun process_files ::
    "settings \<Rightarrow> nat \<Rightarrow> string \<Rightarrow> (upload_file \<times> file_env) list
       \<Rightarrow> string list \<times> string list \<times> nat \<Rightarrow> db
       \<Rightarrow> (exn + (string list \<times> string list \<times> nat)) \<times> db" where
  "process_files cfg jid blob_folder [] acc d = (Inr acc, d)"
| "process_files cfg jid blob_folder (fe # files) acc d =
     (case try_file cfg jid blob_folder fe d of
        (Inl e, d') \<Rightarrow>
          (Inl (HTTPException 500),
           log_job_activity (log_failed_ok (snd fe)) jid ''file_processing_failed'' (db_rollback d'))
      | (Inr artifacts, d') \<Rightarrow>
          process_files cfg jid blob_folder files
            ((if truthy (fst artifacts) then fst acc @ [the (fst artifacts)] else fst acc),
             fst (snd acc) @ snd artifacts,
             Suc (snd (snd acc)))
            d')"

text \<open>
  What \<open>upload_files\<close> depends on outside the program and the files: the commits and
  log writes of the job, the creation of the local folder, and the storage and index
  operations on the aggregated artifacts.
\<close>

record upload_env =
  commit_job_ok :: bool
  log_job_created_ok :: bool
  makedirs :: "exn option"
  agg_put_jsonl :: "exn option"
  log_agg_jsonl_ok :: bool
  agg_build_index :: "exn option"
  agg_index_path :: string
  agg_index_bytes :: "exn + string"
  agg_put_faiss :: "exn option"
  agg_put_chunks :: "exn option"
  log_agg_faiss_ok :: bool
  log_agg_chunks_ok :: bool
  agg_remove_index :: "exn option"
  commit_aggregated_ok :: bool
  log_agg_document_ok :: bool
  commit_finalize_ok :: bool
  log_completed_ok :: bool

text \<open>The id the database gives to a new row: one more than the greatest id in use.\<close>

definition next_id :: "nat list \<Rightarrow> nat" where
  "next_id ids = Suc (fold max ids 0)"

text \<open>The row \<open>_create_job\<close> adds.\<close>

definition pending_job :: "nat \<Rightarrow> string \<Rightarrow> nat \<Rightarrow> job" where
  "pending_job jid name n =
     \<lparr>job_id = jid, job_name = name, status = ''pending'', job_type = ''process_document'',
      file_count = n, document_count = 0, completed_at = False\<rparr>"

definition create_job :: "upload_env \<Rightarrow> string \<Rightarrow> nat \<Rightarrow> db \<Rightarrow> (exn + job) \<times> db" where
  "create_job env name n d =
     (let j = pending_job (next_id (map job_id (jobs d))) name n
      in case db_commit (commit_job_ok env) (db_add (Insert_job j) d) of
           (Inl e, d') \<Rightarrow> (Inl e, d')
         | (Inr u, d') \<Rightarrow>
             (Inr j, log_job_activity (log_job_created_ok env) (job_id j) ''job_created'' d'))"

definition folder_name :: "nat \<Rightarrow> string \<Rightarrow> string" where
  "folder_name jid name = ''job-'' @ string_of_nat jid @ ''-'' @ name"

definition get_folders :: "settings \<Rightarrow> upload_env \<Rightarrow> job \<Rightarrow> string \<Rightarrow> exn + (string \<times> string)" where
  "get_folders cfg env j name =
     (case makedirs env of
        Some e \<Rightarrow> Inl e
      | None \<Rightarrow>
          Inr (path_join (local_storage_folder cfg) (folder_name (job_id j) name),
               folder_name (job_id j) name))"

text \<open>
  \<open>_create_aggregated_artifacts\<close>, in three steps: the combined JSONL, the index and the
  chunk list over all chunks, the aggregated document. Nothing is caught here.
\<close>

definition aggregate_jsonl ::
    "settings \<Rightarrow> upload_env \<Rightarrow> nat \<Rightarrow> string \<Rightarrow> string list \<Rightarrow> db
       \<Rightarrow> (exn + string option) \<times> db" where
  "aggregate_jsonl cfg env jid blob_folder aggregated_jsonl d =
     (if aggregated_jsonl \<noteq> [] then
        (case upload_to_blob_async cfg (agg_put_jsonl env) (py_join [LF] aggregated_jsonl)
                (blob_folder @ ''/jsonl/'' @ string_of_nat jid @ ''_combined.jsonl'') ''artifacts'' of
           Inl e \<Rightarrow> (Inl e, d)
         | Inr p \<Rightarrow>
             (Inr (Some p), log_job_activity (log_agg_jsonl_ok env) jid ''aggregated_jsonl_created'' d))
      else (Inr None, d))"

definition aggregate_index ::
    "settings \<Rightarrow> upload_env \<Rightarrow> nat \<Rightarrow> string \<Rightarrow> string list \<Rightarrow> db
       \<Rightarrow> (exn + (string option \<times> string option)) \<times> db" where
  "aggregate_index cfg env jid blob_folder aggregated_chunks d =
     (if aggregated_chunks \<noteq> [] then
        (case create_faiss_index (agg_build_index env) (agg_index_path env) aggregated_chunks of
           Inl e \<Rightarrow> (Inl e, d)
         | Inr None \<Rightarrow> (Inl TypeError, d)
         | Inr (Some (agg_faiss_index_path, agg_chunks_json)) \<Rightarrow>
             (case agg_index_bytes env of
                Inl e \<Rightarrow> (Inl e, d)
              | Inr file_content \<Rightarrow>
                  (case upload_to_blob_async cfg (agg_put_faiss env) file_content
                          (blob_folder @ ''/faiss/'' @ string_of_nat jid @ ''_combined.bin'')
                          ''artifacts'' of
                     Inl e \<Rightarrow> (Inl e, d)
                   | Inr faiss_blob \<Rightarrow>
                       (case upload_to_blob_async cfg (agg_put_chunks env) agg_chunks_json
                               (blob_folder @ ''/chunks/'' @ string_of_nat jid @ ''_combined.json'')
                               ''artifacts'' of
                          Inl e \<Rightarrow> (Inl e, d)
                        | Inr chunks_blob \<Rightarrow>
                            (let d' = log_job_activity (log_agg_chunks_ok env) jid
                                        ''aggregated_chunks_created''
                                        (log_job_activity (log_agg_faiss_ok env) jid
                                           ''aggregated_faiss_created'' d)
                             in case agg_remove_index env of
                                  Some e \<Rightarrow> (Inl e, d')
                                | None \<Rightarrow> (Inr (Some faiss_blob, Some chunks_blob), d'))))))
      else (Inr (None, None), d))"

definition create_aggregated_artifacts ::
    "settings \<Rightarrow> upload_env \<Rightarrow> nat \<Rightarrow> string \<Rightarrow> string list \<Rightarrow> string list \<Rightarrow> db
       \<Rightarrow> (exn + unit) \<times> db" where
  "create_aggregated_artifacts cfg env jid blob_folder aggregated_jsonl aggregated_chunks d =
     (case aggregate_jsonl cfg env jid blob_folder aggregated_jsonl d of
        (Inl e, d1) \<Rightarrow> (Inl e, d1)
      | (Inr aggregated_jsonl_blob_path, d1) \<Rightarrow>
          (case aggregate_index cfg env jid blob_folder aggregated_chunks d1 of
             (Inl e, d2) \<Rightarrow> (Inl e, d2)
           | (Inr paths, d2) \<Rightarrow>
               (case db_commit (commit_aggregated_ok env)
                       (db_add (Insert_document
                          \<lparr>doc_job_id = jid, blob_path = [], file_type = ''aggregated'',
                           jsonl_blob_path = aggregated_jsonl_blob_path,
                           faiss_index_blob_path = fst paths,
                           chunks_blob_path = snd paths, is_aggregated = True\<rparr>) d2) of
                  (Inl e, d3) \<Rightarrow> (Inl e, d3)
                | (Inr u, d3) \<Rightarrow>
                    (Inr (), log_job_activity (log_agg_document_ok env) jid
                               ''aggregated_document_created'' d3))))"

text \<open>
  \<open>_finalize_job\<close>. Removing the empty local folder is inside its own \<open>try\<close> and does not
  change the result.
\<close>

definition finalize_job :: "upload_env \<Rightarrow> job \<Rightarrow> nat \<Rightarrow> db \<Rightarrow> (exn + job) \<times> db" where
  "finalize_job env j doc_count d =
     (let j' = j\<lparr>document_count := doc_count, status := ''completed'', completed_at := True\<rparr>
      in case db_commit (commit_finalize_ok env) (db_add (Update_job j') d) of
           (Inl e, d') \<Rightarrow> (Inl e, d')
         | (Inr u, d') \<Rightarrow>
             (Inr j', log_job_activity (log_completed_ok env) (job_id j) ''job_completed'' d'))"

definition upload_files ::
    "settings \<Rightarrow> upload_env \<Rightarrow> string \<Rightarrow> (upload_file \<times> file_env) list \<Rightarrow> db
       \<Rightarrow> (exn + job) \<times> db" where
  "upload_files cfg env name files d =
     (if files = [] then (Inl (HTTPException 400), d)
      else
        (case create_job env name (length files) d of
           (Inl e, d1) \<Rightarrow> (Inl e, d1)
         | (Inr j, d1) \<Rightarrow>
             (case get_folders cfg env j name of
                Inl e \<Rightarrow> (Inl e, d1)
              | Inr (job_folder, blob_folder) \<Rightarrow>
                  (case process_files cfg (job_id j) blob_folder files ([], [], 0) d1 of
                     (Inl e, d2) \<Rightarrow> (Inl e, d2)
                   | (Inr (aggregated_jsonl, aggregated_chunks, doc_count), d2) \<Rightarrow>
                       (case create_aggregated_artifacts cfg env (job_id j) blob_folder
                               aggregated_jsonl aggregated_chunks d2 of
                          (Inl e, d3) \<Rightarrow> (Inl e, d3)
                        | (Inr u, d3) \<Rightarrow> finalize_job env j doc_count d3)))))"

text \<open>
  A file is processed successfully when its \<open>try\<close> block raises nothing: the statements
  up to the document record return and the commit of the record is accepted.
\<close>

definition file_succeeds :: "settings \<Rightarrow> nat \<Rightarrow> string \<Rightarrow> upload_file \<times> file_env \<Rightarrow> bool" where
  "file_succeeds cfg jid blob_folder fe =
     (\<not> isl (file_result cfg jid blob_folder fe) \<and> commit_document_ok (snd fe))"

text \<open>The row recorded for a file that is processed successfully.\<close>

definition recorded_document ::
    "settings \<Rightarrow> nat \<Rightarrow> string \<Rightarrow> upload_file \<times> file_env \<Rightarrow> document" where
  "recorded_document cfg jid blob_folder fe = snd (projr (file_result cfg jid blob_folder fe))"

subsection \<open>A concrete run\<close>

text \<open>
  Local storage, an empty database, a completion service that answers with ten lines
  \<open>{}\<close>, and an environment in which every operation succeeds.
\<close>

definition local_cfg :: settings where
  "local_cfg = \<lparr>azure = False, local_storage_folder = ''local_storage''\<rparr>"

definition empty_db :: db where
  "empty_db = \<lparr>jobs = [], documents = [], finetuned_models = [], activity = [], pending = []\<rparr>"

definition ok_generator :: generator_env where
  "ok_generator =
     \<lparr>completion = (\<lambda>i. Inr (concat (replicate 10 (''{}'' @ [LF])))),
      canon = (\<lambda>line. line),
      draw = (\<lambda>i. 0)\<rparr>"

definition ok_env :: "string \<Rightarrow> file_env" where
  "ok_env t =
     \<lparr>put_original = None, get_original = None, local_exists = True, extracted = Some t,
      generator = ok_generator, put_jsonl = None, build_index = None,
      index_path = ''local_storage/faiss/faiss_index_1.bin'', index_bytes = Inr ''index'',
      put_faiss = None, put_chunks = None, log_started_ok = True, commit_document_ok = True,
      log_created_ok = True, log_failed_ok = True\<rparr>"

definition ok_upload_env :: upload_env where
  "ok_upload_env =
     \<lparr>commit_job_ok = True, log_job_created_ok = True, makedirs = None, agg_put_jsonl = None,
      log_agg_jsonl_ok = True, agg_build_index = None,
      agg_index_path = ''local_storage/faiss/faiss_index_2.bin'', agg_index_bytes = Inr ''index'',
      agg_put_faiss = None, agg_put_chunks = None, log_agg_faiss_ok = True,
      log_agg_chunks_ok = True, agg_remove_index = None, commit_aggregated_ok = True,
      log_agg_document_ok = True, commit_finalize_ok = True, log_completed_ok = True\<rparr>"

definition text_file :: "string \<Rightarrow> string \<Rightarrow> upload_file" where
  "text_file name bytes = \<lparr>filename = name, content_type = ''text/plain'', content = bytes\<rparr>"

text \<open>Three files of which the second one fails to parse.\<close>

definition file_a :: "upload_file \<times> file_env" where
  "file_a = (text_file ''a.txt'' ''alpha beta'', ok_env ''alpha beta'')"

definition file_b :: "upload_file \<times> file_env" where
  "file_b = (text_file ''b.txt'' ''broken'', (ok_env ''broken'')\<lparr>extracted := None\<rparr>)"

definition file_c :: "upload_file \<times> file_env" where
  "file_c = (text_file ''c.txt'' ''gamma'', ok_env ''gamma'')"

definition three_files :: "(upload_file \<times> file_env) list" where
  "three_files = [file_a, file_b, file_c]"

text \<open>
  A file whose index cannot be built, a file whose JSONL cannot be stored, a file whose
  chunk list cannot be stored, an empty file, and a file of blanks.
\<close>

definition unindexed_file :: "upload_file \<times> file_env" where
  "unindexed_file =
     (text_file ''a.txt'' ''alpha beta'', (ok_env ''alpha beta'')\<lparr>build_index := Some ProviderError\<rparr>)"

definition unstored_jsonl_file :: "upload_file \<times> file_env" where
  "unstored_jsonl_file =
     (text_file ''a.txt'' ''alpha beta'', (ok_env ''alpha beta'')\<lparr>put_jsonl := Some ProviderError\<rparr>)"

definition unchunked_file :: "upload_file \<times> file_env" where
  "unchunked_file =
     (text_file ''a.txt'' ''alpha beta'', (ok_env ''alpha beta'')\<lparr>put_chunks := Some ProviderError\<rparr>)"

definition empty_file :: "upload_file \<times> file_env" where
  "empty_file = (text_file ''empty.txt'' [], ok_env [])"

definition blank_file :: "upload_file \<times> file_env" where
  "blank_file = (text_file ''blank.txt'' ''  '', ok_env ''  '')"


section \<open>Words and joins\<close>

lemma py_split_aux_words:
  "\<forall>c \<in> set cur. \<not> py_isspace c \<Longrightarrow> \<forall>w \<in> set (py_split_aux cur s). is_word w"
proof (induction s arbitrary: cur)
  case Nil
  then show ?case by (simp add: is_word_def)
next
  case (Cons a s)
  have e: "\<forall>w \<in> set (py_split_aux [] s). is_word w"
    by (rule Cons.IH) simp
  show ?case
  proof (cases "py_isspace a")
    case True
    with e Cons.prems show ?thesis by (simp add: is_word_def)
  next
    case False
    with Cons.prems have "\<forall>c \<in> set (cur @ [a]). \<not> py_isspace c" by simp
    from Cons.IH[OF this] False show ?thesis by simp
  qed
qed

lemma py_split_words: "\<forall>w \<in> set (py_split s). is_word w"
  unfolding py_split_def by (rule py_split_aux_words) simp

lemma py_split_aux_nospace:
  "\<forall>c \<in> set w. \<not> py_isspace c \<Longrightarrow> py_split_aux cur (w @ r) = py_split_aux (cur @ w) r"
  by (induction w arbitrary: cur) auto

lemma py_isspace_space: "py_isspace CHR '' ''"
  by (simp add: py_isspace_def)

lemma py_split_aux_join:
  "\<forall>w \<in> set ws. is_word w \<Longrightarrow> ws \<noteq> [] \<Longrightarrow> py_split_aux [] (py_join '' '' ws) = ws"
proof (induction ws rule: induct_list012)
  case 1
  then show ?case by simp
next
  case (2 x)
  then have "py_split_aux [] (x @ []) = py_split_aux ([] @ x) []"
    by (intro py_split_aux_nospace) (simp add: is_word_def)
  with 2 show ?case by (simp add: is_word_def)
next
  case (3 x y ys)
  from 3(3) have x: "x \<noteq> []" "\<forall>c \<in> set x. \<not> py_isspace c"
    by (simp_all add: is_word_def)
  have "py_split_aux [] (x @ '' '' @ py_join '' '' (y # ys))
      = py_split_aux ([] @ x) ('' '' @ py_join '' '' (y # ys))"
    using x(2) by (rule py_split_aux_nospace)
  also have "\<dots> = x # py_split_aux [] (py_join '' '' (y # ys))"
    using x(1) by (simp add: py_isspace_space)
  also have "\<dots> = x # y # ys"
    using 3(2,3) by simp
  finally show ?case by simp
qed

lemma py_split_join:
  "\<forall>w \<in> set ws. is_word w \<Longrightarrow> py_split (py_join '' '' ws) = ws"
  by (cases "ws = []") (simp_all add: py_split_def py_split_aux_join)

lemma py_split_all_space:
  "\<forall>c \<in> set s. py_isspace c \<Longrightarrow> py_split_aux [] s = []"
  by (induction s) auto

section \<open>The groups of words\<close>

lemma concat_groups:
  "0 < n \<Longrightarrow> concat (map (\<lambda>i. take n (drop i ws)) (py_range i (length ws) n)) = drop i ws"
proof (induction i "length ws" n rule: py_range.induct)
  case (1 i step)
  show ?case
  proof (cases "length ws \<le> i")
    case True
    then show ?thesis by (simp add: py_range.simps)
  next
    case False
    with 1 have "concat (map (\<lambda>i. take step (drop i ws)) (py_range (i + step) (length ws) step))
        = drop (i + step) ws"
      by simp
    moreover have "take step (drop i ws) @ drop (i + step) ws = drop i ws"
      by (metis add.commute append_take_drop_id drop_drop)
    ultimately show ?thesis
      using False 1(2) by (subst py_range.simps) simp
  qed
qed

lemma py_range_bounds:
  "0 < n \<Longrightarrow> k < length (py_range i stop n) \<Longrightarrow>
     py_range i stop n ! k < stop \<and>
     (Suc k < length (py_range i stop n) \<longrightarrow> py_range i stop n ! k + n < stop)"
proof (induction i stop n arbitrary: k rule: py_range.induct)
  case (1 i stop step)
  from 1(3) have lt: "i < stop"
    by (subst (asm) py_range.simps) (auto split: if_splits)
  have unf: "py_range i stop step = i # py_range (i + step) stop step"
    using lt 1(2) by (subst py_range.simps) simp
  show ?case
  proof (cases k)
    case 0
    have "Suc 0 < length (py_range i stop step) \<Longrightarrow> i + step < stop"
      unfolding unf by (subst (asm) py_range.simps) (auto split: if_splits)
    with 0 lt show ?thesis by (simp add: unf)
  next
    case (Suc j)
    with 1(3) have "j < length (py_range (i + step) stop step)"
      by (simp add: unf)
    with 1(1)[of j] lt 1(2) Suc show ?thesis
      by (simp add: unf)
  qed
qed

lemma word_groups_concat: "0 < n \<Longrightarrow> concat (word_groups ws n) = ws"
  using concat_groups[of n ws 0] by (simp add: word_groups_def)

lemma word_groups_length:
  assumes "0 < n" "k < length (word_groups ws n)"
  shows "1 \<le> length (word_groups ws n ! k) \<and> length (word_groups ws n ! k) \<le> n \<and>
         (Suc k < length (word_groups ws n) \<longrightarrow> length (word_groups ws n ! k) = n)"
proof -
  let ?r = "py_range 0 (length ws) n"
  from assms(2) have k: "k < length ?r" by (simp add: word_groups_def)
  from py_range_bounds[OF assms(1) k]
  have b: "?r ! k < length ws" "Suc k < length ?r \<longrightarrow> ?r ! k + n < length ws"
    by simp_all
  have "word_groups ws n ! k = take n (drop (?r ! k) ws)"
    using k by (simp add: word_groups_def)
  then show ?thesis using b assms(1) by (auto simp: word_groups_def)
qed

lemma word_groups_subset: "0 < n \<Longrightarrow> g \<in> set (word_groups ws n) \<Longrightarrow> set g \<subseteq> set ws"
  by (auto simp: word_groups_def dest: in_set_takeD in_set_dropD)

lemma word_groups_empty: "word_groups [] n = []"
  by (simp add: word_groups_def py_range.simps)

lemma py_join_concat:
  "\<forall>g \<in> set gs. g \<noteq> [] \<Longrightarrow> py_join sep (map (py_join sep) gs) = py_join sep (concat gs)"
proof (induction gs)
  case Nil
  then show ?case by simp
next
  case (Cons g gs)
  have app: "py_join sep (a @ b) = py_join sep a @ sep @ py_join sep b"
    if "a \<noteq> []" "b \<noteq> []" for a b :: "string list"
    using that by (induction a rule: induct_list012) (auto simp: neq_Nil_conv)
  show ?case
  proof (cases gs)
    case Nil
    then show ?thesis by simp
  next
    case (Cons h hs)
    with Cons.prems have ne: "g \<noteq> []" "concat gs \<noteq> []" by auto
    have "py_join sep (map (py_join sep) (g # gs))
        = py_join sep g @ sep @ py_join sep (map (py_join sep) gs)"
      using Cons by simp
    also have "\<dots> = py_join sep g @ sep @ py_join sep (concat gs)"
      using Cons.IH Cons.prems by simp
    also have "\<dots> = py_join sep (g @ concat gs)"
      using app[OF ne] by simp
    finally show ?thesis by simp
  qed
qed

section \<open>Chunking\<close>

text \<open>
  C8. For every text and every chunk size \<open>n > 0\<close>, \<open>chunk_text\<close> returns chunks of which
  every one but possibly the last contains exactly \<open>n\<close> words, the last one contains between
  1 and \<open>n\<close> words, and a text that is empty or all whitespace gives no chunk.
\<close>

theorem chunk_text_sizes:
  assumes "0 < n"
  shows "\<exists>cs. chunk_text text n = Inr cs \<and>
     (\<forall>k < length cs. 1 \<le> word_count (cs ! k) \<and> word_count (cs ! k) \<le> nat n \<and>
        (Suc k < length cs \<longrightarrow> word_count (cs ! k) = nat n)) \<and>
     ((\<forall>c \<in> set text. py_isspace c) \<longrightarrow> cs = [])"
proof -
  let ?ws = "py_split text"
  let ?gs = "word_groups ?ws (nat n)"
  let ?cs = "map (py_join '' '') ?gs"
  from assms have n: "0 < nat n" by simp
  have eq: "chunk_text text n = Inr ?cs"
    using assms by (simp add: chunk_text_def)
  have wc: "word_count (?cs ! k) = length (?gs ! k)" if "k < length ?gs" for k
  proof -
    have "?gs ! k \<in> set ?gs" using that by simp
    then have "set (?gs ! k) \<subseteq> set ?ws" using n word_groups_subset by blast
    then have "\<forall>w \<in> set (?gs ! k). is_word w" using py_split_words[of "text"] by blast
    then show ?thesis using that by (simp add: word_count_def py_split_join)
  qed
  have sizes: "\<forall>k < length ?cs. 1 \<le> word_count (?cs ! k) \<and> word_count (?cs ! k) \<le> nat n \<and>
        (Suc k < length ?cs \<longrightarrow> word_count (?cs ! k) = nat n)"
    using word_groups_length[OF n, of _ ?ws] wc by simp
  have "?cs = []" if "\<forall>c \<in> set text. py_isspace c"
    using that by (simp add: py_split_def py_split_all_space word_groups_empty)
  with eq sizes show ?thesis by blast
qed

theorem chunk_text_sizes_witness:
  "(0::int) < 2 \<and> chunk_text ''a b  c'' 2 = Inr [''a b'', ''c''] \<and>
   word_count ''a b'' = 2 \<and> word_count ''c'' = 1 \<and> chunk_text '' '' 2 = Inr []"
  using chunk_text_sizes[of 2 "''a b  c''"] chunk_text_sizes[of 2 "'' ''"]
  by (simp add: chunk_text_def word_count_def py_split_def py_isspace_def word_groups_def py_range.simps)

text \<open>
  C9. For every text and every \<open>n > 0\<close>, joining the chunks of \<open>chunk_text text n\<close> with
  single spaces gives the words of the text joined by single spaces.
\<close>

theorem chunk_text_join:
  assumes "0 < n"
  shows "\<exists>cs. chunk_text text n = Inr cs \<and> py_join '' '' cs = py_join '' '' (py_split text)"
proof -
  let ?ws = "py_split text"
  let ?gs = "word_groups ?ws (nat n)"
  from assms have n: "0 < nat n" by simp
  have "\<forall>g \<in> set ?gs. g \<noteq> []"
  proof
    fix g assume "g \<in> set ?gs"
    then obtain k where "k < length ?gs" "g = ?gs ! k" by (auto simp: in_set_conv_nth)
    with word_groups_length[OF n, of k ?ws] show "g \<noteq> []" by auto
  qed
  then have "py_join '' '' (map (py_join '' '') ?gs) = py_join '' '' (concat ?gs)"
    by (rule py_join_concat)
  then show ?thesis
    using assms by (simp add: chunk_text_def word_groups_concat[OF n])
qed

theorem chunk_text_join_witness:
  "(0::int) < 2 \<and> chunk_text '' a b  c d e '' 2 = Inr [''a b'', ''c d'', ''e''] \<and>
     py_join '' '' [''a b'', ''c d'', ''e''] = ''a b c d e''"
  using chunk_text_join[of 2 "'' a b  c d e ''"]
  by (simp add: chunk_text_def py_split_def py_isspace_def word_groups_def py_range.simps)

section \<open>Retrieval\<close>

lemma py_index_bound: "py_index xs i = Inr p \<Longrightarrow> p < length xs"
  by (auto simp: py_index_def Let_def split: if_splits)

lemma selected_positions_bound:
  "selected_positions chunks labels = Inr ps \<Longrightarrow>
     length ps \<le> length labels \<and> (\<forall>p \<in> set ps. p < length chunks)"
proof (induction labels arbitrary: ps)
  case Nil
  then show ?case by simp
next
  case (Cons i labels)
  show ?case
  proof (cases "i < int (length chunks)")
    case False
    with Cons show ?thesis by fastforce
  next
    case True
    with Cons.prems obtain p qs where
      p: "py_index chunks i = Inr p" and
      qs: "selected_positions chunks labels = Inr qs" and
      ps: "ps = p # qs"
      by (auto split: sum.splits)
    from Cons.IH[OF qs] py_index_bound[OF p] ps show ?thesis by simp
  qed
qed

text \<open>
  C10. For a chunk list of length \<open>L\<close>, the retrieval step returns at most \<open>min 5 L\<close>
  chunks and reads no position greater than or equal to \<open>L\<close>. The index search returns as
  many labels as the \<open>k\<close> it is asked for.
\<close>

theorem retrieve_chunks_cap:
  assumes "\<And>k labels. search k = Inr labels \<Longrightarrow> length labels = k"
    and "retrieve_chunks search chunks = Inr (ps, rs)"
  shows "length rs \<le> min 5 (length chunks) \<and> length ps = length rs \<and>
         (\<forall>p \<in> set ps. p < length chunks) \<and> rs = map (\<lambda>p. chunks ! p) ps"
proof -
  from assms(2) obtain labels where
    l: "search (min 5 (length chunks)) = Inr labels" and
    s: "selected_positions chunks labels = Inr ps" and
    r: "rs = map (\<lambda>p. chunks ! p) ps"
    by (auto simp: retrieve_chunks_def split: sum.splits if_splits)
  from assms(1)[OF l] selected_positions_bound[OF s] r show ?thesis by simp
qed

theorem retrieve_chunks_cap_witness:
  "retrieve_chunks (\<lambda>k. Inr (take k ([1, 0] @ replicate k (-1)))) [''a'', ''b'']
      = Inr ([1, 0], [''b'', ''a'']) \<and>
   length [''b'', ''a''] \<le> min 5 (length [''a'', ''b'']) \<and>
   (1::nat) < length [''a'', ''b''] \<and> (0::nat) < length [''a'', ''b'']"
proof -
  let ?search = "\<lambda>k. Inr (take k ([1, 0] @ replicate k (-1 :: int))) :: exn + int list"
  have h1: "length labels = k" if "?search k = Inr labels" for k labels
    using that by auto
  have h2: "retrieve_chunks ?search [''a'', ''b''] = Inr ([1, 0], [''b'', ''a''])"
    by (simp add: retrieve_chunks_def py_index_def numeral_2_eq_2)
  from retrieve_chunks_cap[of ?search, OF h1 h2] h2 show ?thesis
    by simp
qed

section \<open>Status polling\<close>

text \<open>
  C5. With two fine-tuned model rows for a job, \<open>check_finetune_status\<close> looks up the row
  the unordered query returns first, the one with the lower id, and reports the status of
  that attempt; the query of the chat and evaluation services, which orders by id
  descending, takes the row with the higher id.
\<close>

theorem check_finetune_status_oldest:
  "fst (check_finetune_status two_attempts_env 1 two_attempts_db)
     = Inr (Status_info 1 (Some ''ftjob-a'') ''failed'' None) \<and>
   map_option ftm_id (status_ft_model 1 two_attempts_db) = Some 1 \<and>
   map_option ftm_id (latest_ft_model 1 two_attempts_db) = Some 2"
  by (simp add: check_finetune_status_def status_ft_model_def latest_ft_model_def
      query_first_def two_attempts_db_def two_attempts_env_def truthy_def
      update_job_status_def update_model_id_def log_job_activity_def db_commit_def db_add_def)

section \<open>Serialised values are accepted by the decoder\<close>

lemma is_hex_hex_digit: "n < 16 \<Longrightarrow> is_hex (hex_digit n)"
proof -
  have "list_all (\<lambda>k. is_hex (hex_digit k)) [0 ..< 16]"
    by code_simp
  then have "\<forall>k \<in> set [0 ..< 16]. is_hex (hex_digit k)"
    by (simp only: list_all_iff)
  moreover assume "n < 16"
  ultimately show ?thesis by simp
qed

lemma scan_string_escape_char: "scan_string (escape_char c @ r) = scan_string r"
proof -
  have h: "is_hex (hex_digit (of_char c div 16))" "is_hex (hex_digit (of_char c mod 16))"
    by (rule is_hex_hex_digit, simp add: less_mult_imp_div_less)
       (rule is_hex_hex_digit, simp)
  have z: "is_hex CHR ''0''" by (simp add: is_hex_def is_digit_def)
  show ?thesis
    using h z by (auto simp: escape_char_def dq_def bs_def)
qed

lemma scan_string_escaped:
  "scan_string (concat (map escape_char s) @ dq # r) = Some r"
  by (induction s) (simp_all add: scan_string_escape_char)

lemma scan_string_encode: "scan_string (tl (encode_string s) @ r) = Some r"
  by (simp add: encode_string_def scan_string_escaped)

lemma json_dumps_hd:
  "\<exists>c r. json_dumps v = c # r \<and> (c = dq \<or> c = CHR ''['' \<or> c = CHR ''{'')"
  by (cases v) (simp_all add: encode_string_def)

lemma skip_ws_dumps: "skip_ws (json_dumps v @ r) = json_dumps v @ r"
  using json_dumps_hd[of v] by (auto simp: skip_ws_def json_ws_def dq_def)

lemma skip_ws_encode: "skip_ws (encode_string k @ r) = encode_string k @ r"
  by (simp add: skip_ws_def json_ws_def dq_def encode_string_def)

lemma skip_ws_space: "skip_ws (CHR '' '' # s) = skip_ws s"
  by (simp add: skip_ws_def json_ws_def)

lemma scan_elements_dumps:
  assumes "\<And>x n r. x \<in> set xs \<Longrightarrow> 2 * length (json_dumps x @ r) \<le> n \<Longrightarrow>
             scan_value n (json_dumps x @ r) = Some r"
    and "xs \<noteq> []"
    and "2 * length (py_join '', '' (map json_dumps xs) @ CHR '']'' # r) < n"
  shows "scan_elements n (py_join '', '' (map json_dumps xs) @ CHR '']'' # r) = Some r"
  using assms
proof (induction xs arbitrary: n rule: induct_list012)
  case 1
  then show ?case by simp
next
  case (2 x)
  from 2(3) obtain m where n: "n = Suc m" by (cases n) auto
  have "scan_value m (json_dumps x @ CHR '']'' # r) = Some (CHR '']'' # r)"
    using 2(3) n by (intro 2(1)) simp_all
  then show ?case
    by (simp add: n skip_ws_def json_ws_def)
next
  case (3 x y zs)
  from 3(5) obtain m where n: "n = Suc m" by (cases n) auto
  define t where "t = py_join '', '' (map json_dumps (y # zs)) @ CHR '']'' # r"
  have unf: "py_join '', '' (map json_dumps (x # y # zs)) @ CHR '']'' # r
      = json_dumps x @ (CHR '','' # CHR '' '' # t)"
    by (simp add: t_def)
  have len: "2 * length (json_dumps x @ (CHR '','' # CHR '' '' # t)) \<le> m" "2 * length t < m"
    using 3(5) n unfolding unf by simp_all
  have v: "scan_value m (json_dumps x @ (CHR '','' # CHR '' '' # t)) = Some (CHR '','' # CHR '' '' # t)"
    using len(1) by (intro 3(3)) simp_all
  have "scan_elements m t = Some r"
    unfolding t_def
  proof (rule 3(2))
    show "scan_value k (json_dumps e @ q) = Some q"
      if "e \<in> set (y # zs)" "2 * length (json_dumps e @ q) \<le> k" for e k q
      using that by (intro 3(3)) simp_all
    show "y # zs \<noteq> []" by simp
    show "2 * length (py_join '', '' (map json_dumps (y # zs)) @ CHR '']'' # r) < m"
      using len(2) by (simp add: t_def)
  qed
  moreover have "skip_ws (CHR '' '' # t) = t"
  proof -
    obtain u where "t = json_dumps y @ u"
      unfolding t_def by (cases zs) auto
    then show ?thesis
      using skip_ws_dumps[of y u] by (simp add: skip_ws_space)
  qed
  moreover have "skip_ws (CHR '','' # CHR '' '' # t) = CHR '','' # CHR '' '' # t"
    by (simp add: skip_ws_def json_ws_def)
  ultimately show ?case
    unfolding unf n using v by simp
qed

lemma scan_member:
  assumes "2 * length (json_dumps v @ q) \<le> m \<Longrightarrow> scan_value m (json_dumps v @ q) = Some q"
    and "2 * length (dumps_member (k, v) @ q) \<le> m"
  shows "\<exists>r0 r2. dumps_member (k, v) @ q = dq # r0 \<and>
           scan_string r0 = Some (CHR '':'' # r2) \<and>
           scan_value m (skip_ws r2) = Some q"
proof -
  let ?r2 = "CHR '' '' # json_dumps v @ q"
  have e: "dumps_member (k, v) @ q = dq # (tl (encode_string k) @ (CHR '':'' # ?r2))"
    by (simp add: dumps_member_def encode_string_def)
  have s: "scan_string (tl (encode_string k) @ (CHR '':'' # ?r2)) = Some (CHR '':'' # ?r2)"
    by (rule scan_string_encode)
  have "scan_value m (json_dumps v @ q) = Some q"
    using assms by (simp add: dumps_member_def)
  then have "scan_value m (skip_ws ?r2) = Some q"
    by (simp add: skip_ws_space skip_ws_dumps)
  with e s show ?thesis by blast
qed

lemma scan_members_dumps:
  assumes "\<And>k v n r. (k, v) \<in> set kvs \<Longrightarrow> 2 * length (json_dumps v @ r) \<le> n \<Longrightarrow>
             scan_value n (json_dumps v @ r) = Some r"
    and "kvs \<noteq> []"
    and "2 * length (py_join '', '' (map dumps_member kvs) @ CHR ''}'' # r) < n"
  shows "scan_members n (py_join '', '' (map dumps_member kvs) @ CHR ''}'' # r) = Some r"
  using assms
proof (induction kvs arbitrary: n rule: induct_list012)
  case 1
  then show ?case by simp
next
  case (2 kv)
  obtain k v where kv: "kv = (k, v)" by (cases kv)
  from 2(3) obtain m where n: "n = Suc m" by (cases n) auto
  have "\<exists>r0 r2. dumps_member (k, v) @ CHR ''}'' # r = dq # r0 \<and>
           scan_string r0 = Some (CHR '':'' # r2) \<and>
           scan_value m (skip_ws r2) = Some (CHR ''}'' # r)"
  proof (rule scan_member)
    show "scan_value m (json_dumps v @ CHR ''}'' # r) = Some (CHR ''}'' # r)"
      if "2 * length (json_dumps v @ CHR ''}'' # r) \<le> m"
      using that kv by (intro 2(1)[of k v]) simp_all
    show "2 * length (dumps_member (k, v) @ CHR ''}'' # r) \<le> m"
      using 2(3) n kv by simp
  qed
  then obtain r0 r2 where
    "dumps_member (k, v) @ CHR ''}'' # r = dq # r0"
    "scan_string r0 = Some (CHR '':'' # r2)"
    "scan_value m (skip_ws r2) = Some (CHR ''}'' # r)"
    by blast
  then show ?case
    by (simp add: n kv skip_ws_def json_ws_def)
next
  case (3 kv kv' zs)
  obtain k v where kv: "kv = (k, v)" by (cases kv)
  from 3(5) obtain m where n: "n = Suc m" by (cases n) auto
  define t where "t = py_join '', '' (map dumps_member (kv' # zs)) @ CHR ''}'' # r"
  have unf: "py_join '', '' (map dumps_member (kv # kv' # zs)) @ CHR ''}'' # r
      = dumps_member (k, v) @ (CHR '','' # CHR '' '' # t)"
    by (simp add: t_def kv)
  have len: "2 * length (dumps_member (k, v) @ (CHR '','' # CHR '' '' # t)) \<le> m"
    "2 * length t < m"
    using 3(5) n unfolding unf by simp_all
  have "\<exists>r0 r2. dumps_member (k, v) @ (CHR '','' # CHR '' '' # t) = dq # r0 \<and>
           scan_string r0 = Some (CHR '':'' # r2) \<and>
           scan_value m (skip_ws r2) = Some (CHR '','' # CHR '' '' # t)"
  proof (rule scan_member)
    show "scan_value m (json_dumps v @ CHR '','' # CHR '' '' # t) = Some (CHR '','' # CHR '' '' # t)"
      if "2 * length (json_dumps v @ CHR '','' # CHR '' '' # t) \<le> m"
      using that kv by (intro 3(3)[of k v]) simp_all
    show "2 * length (dumps_member (k, v) @ CHR '','' # CHR '' '' # t) \<le> m"
      using len(1) by simp
  qed
  then obtain r0 r2 where m:
    "dumps_member (k, v) @ (CHR '','' # CHR '' '' # t) = dq # r0"
    "scan_string r0 = Some (CHR '':'' # r2)"
    "scan_value m (skip_ws r2) = Some (CHR '','' # CHR '' '' # t)"
    by blast
  have "scan_members m t = Some r"
    unfolding t_def
  proof (rule 3(2))
    show "scan_value j (json_dumps e @ q) = Some q"
      if "(a, e) \<in> set (kv' # zs)" "2 * length (json_dumps e @ q) \<le> j" for a e j q
      using that by (intro 3(3)[of a e]) simp_all
    show "kv' # zs \<noteq> []" by simp
    show "2 * length (py_join '', '' (map dumps_member (kv' # zs)) @ CHR ''}'' # r) < m"
      using len(2) by (simp add: t_def)
  qed
  moreover have "skip_ws (CHR '' '' # t) = t"
  proof -
    obtain u where "t = encode_string (fst kv') @ u"
      unfolding t_def by (cases zs) (auto simp: dumps_member_def)
    then show ?thesis
      using skip_ws_encode[of "fst kv'" u] by (simp add: skip_ws_space)
  qed
  ultimately show ?case
    unfolding unf n using m by (simp add: skip_ws_def json_ws_def)
qed

lemma json_dumps_object:
  "json_dumps (JObject kvs) = CHR ''{'' # py_join '', '' (map dumps_member kvs) @ ''}''"
proof -
  have "(\<lambda>(k, v). encode_string k @ '': '' @ json_dumps v) = dumps_member"
    by (auto simp: dumps_member_def fun_eq_iff)
  then show ?thesis by simp
qed

lemma scan_value_dumps:
  "2 * length (json_dumps v @ r) \<le> n \<Longrightarrow> scan_value n (json_dumps v @ r) = Some r"
proof (induction v arbitrary: n r)
  case (JString s)
  then obtain m where n: "n = Suc m"
    by (cases n) (auto simp: encode_string_def)
  have "json_dumps (JString s) @ r = dq # tl (encode_string s) @ r"
    by (simp add: encode_string_def)
  then show ?case
    by (simp add: n scan_string_encode del: json_dumps.simps)
next
  case (JArray xs)
  from JArray(2) obtain m where n: "n = Suc m" by (cases n) auto
  show ?case
  proof (cases "xs = []")
    case True
    then show ?thesis by (simp add: n dq_def skip_ws_def json_ws_def)
  next
    case False
    define t where "t = py_join '', '' (map json_dumps xs) @ CHR '']'' # r"
    have unf: "json_dumps (JArray xs) @ r = CHR ''['' # t"
      by (simp add: t_def)
    have "scan_elements m t = Some r"
      unfolding t_def
    proof (rule scan_elements_dumps)
      show "scan_value j (json_dumps e @ q) = Some q"
        if "e \<in> set xs" "2 * length (json_dumps e @ q) \<le> j" for e j q
        using that by (rule JArray(1))
      show "xs \<noteq> []" by (rule False)
      show "2 * length (py_join '', '' (map json_dumps xs) @ CHR '']'' # r) < m"
        using JArray(2) n unfolding unf t_def by simp
    qed
    moreover obtain c u where t: "t = c # u" "c = dq \<or> c = CHR ''['' \<or> c = CHR ''{''"
    proof -
      from False obtain x ys where "xs = x # ys" by (cases xs) auto
      moreover obtain c w where "json_dumps x = c # w" "c = dq \<or> c = CHR ''['' \<or> c = CHR ''{''"
        using json_dumps_hd[of x] by blast
      ultimately show ?thesis
        using that unfolding t_def by (cases ys) auto
    qed
    ultimately show ?thesis
      unfolding unf n by (auto simp: dq_def skip_ws_def json_ws_def)
  qed
next
  case (JObject kvs)
  from JObject(2) obtain m where n: "n = Suc m" by (cases n) auto
  show ?case
  proof (cases "kvs = []")
    case True
    then show ?thesis by (simp add: n dq_def skip_ws_def json_ws_def)
  next
    case False
    define t where "t = py_join '', '' (map dumps_member kvs) @ CHR ''}'' # r"
    have unf: "json_dumps (JObject kvs) @ r = CHR ''{'' # t"
      by (simp add: t_def json_dumps_object del: json_dumps.simps)
    have "scan_members m t = Some r"
      unfolding t_def
    proof (rule scan_members_dumps)
      show "scan_value j (json_dumps e @ q) = Some q"
        if "(a, e) \<in> set kvs" "2 * length (json_dumps e @ q) \<le> j" for a e j q
        using that by (intro JObject(1)[of "(a, e)" e]) simp_all
      show "kvs \<noteq> []" by (rule False)
      show "2 * length (py_join '', '' (map dumps_member kvs) @ CHR ''}'' # r) < m"
        using JObject(2) n unfolding unf t_def by simp
    qed
    moreover obtain u where t: "t = dq # u"
    proof -
      from False obtain x ys where "kvs = x # ys" by (cases kvs) auto
      then show ?thesis
        using that unfolding t_def by (cases ys) (auto simp: dumps_member_def encode_string_def)
    qed
    ultimately show ?thesis
      unfolding unf n by (auto simp: dq_def skip_ws_def json_ws_def)
  qed
qed

lemma json_valid_dumps: "json_valid (json_dumps v)"
proof -
  have "skip_ws (json_dumps v) = json_dumps v"
    using skip_ws_dumps[of v "[]"] by simp
  moreover have "scan_value (Suc (2 * length (json_dumps v))) (json_dumps v @ []) = Some []"
    by (rule scan_value_dumps) simp
  ultimately show ?thesis
    by (simp add: json_valid_def skip_ws_def)
qed

section \<open>The fallback lines\<close>

lemma set_py_join: "set (py_join sep xs) \<subseteq> set sep \<union> \<Union> (set ` set xs)"
  by (induction xs rule: induct_list012) auto

lemma printable_hex_digit: "n < 16 \<Longrightarrow> printable (hex_digit n)"
proof -
  have "list_all (\<lambda>k. printable (hex_digit k)) [0 ..< 16]"
    by code_simp
  then have "\<forall>k \<in> set [0 ..< 16]. printable (hex_digit k)"
    by (simp only: list_all_iff)
  moreover assume "n < 16"
  ultimately show ?thesis by simp
qed

lemma printable_escape_char: "x \<in> set (escape_char c) \<Longrightarrow> printable x"
proof -
  have h: "printable (hex_digit (of_char c div 16))" "printable (hex_digit (of_char c mod 16))"
    by (rule printable_hex_digit, simp add: less_mult_imp_div_less)
       (rule printable_hex_digit, simp)
  assume "x \<in> set (escape_char c)"
  then show ?thesis
    using h by (auto simp: escape_char_def printable_def dq_def bs_def split: if_splits)
qed

lemma printable_encode_string: "x \<in> set (encode_string s) \<Longrightarrow> printable x"
  by (auto simp: encode_string_def printable_escape_char) (simp add: printable_def dq_def)+

lemma printable_json_dumps: "x \<in> set (json_dumps v) \<Longrightarrow> printable x"
proof (induction v arbitrary: x)
  case (JString s)
  then show ?case by (simp add: printable_encode_string)
next
  case (JArray xs)
  have "set (py_join '', '' (map json_dumps xs)) \<subseteq> set '', '' \<union> \<Union> (set ` set (map json_dumps xs))"
    by (rule set_py_join)
  with JArray show ?case
    by (auto simp: printable_def)
next
  case (JObject kvs)
  have "set (py_join '', '' (map dumps_member kvs)) \<subseteq> set '', '' \<union> \<Union> (set ` set (map dumps_member kvs))"
    by (rule set_py_join)
  moreover have "printable y" if "kv \<in> set kvs" "y \<in> set (dumps_member kv)" for kv y
  proof -
    obtain k v where kv: "kv = (k, v)" by (cases kv)
    from that(2) consider "y \<in> set (encode_string k)" | "y \<in> set '': ''" | "y \<in> set (json_dumps v)"
      by (auto simp: dumps_member_def kv)
    then show ?thesis
    proof cases
      case 1
      then show ?thesis by (rule printable_encode_string)
    next
      case 2
      then show ?thesis by (auto simp: printable_def)
    next
      case 3
      with that(1) show ?thesis by (intro JObject(1)[of kv v]) (simp_all add: kv)
    qed
  qed
  ultimately show ?case
    using JObject(2) unfolding json_dumps_object by (auto simp: printable_def)
qed

lemma is_line_json_dumps: "is_line (json_dumps v)"
proof -
  have "json_dumps v \<noteq> []"
    using json_dumps_hd[of v] by auto
  moreover have "\<not> is_linebreak c" if "c \<in> set (json_dumps v)" for c
    using printable_json_dumps[OF that] by (auto simp: printable_def is_linebreak_def)
  ultimately show ?thesis by (simp add: is_line_def)
qed

lemma splitlines_aux_line:
  "\<forall>c \<in> set l. \<not> is_linebreak c \<Longrightarrow> splitlines_aux cur (l @ r) = splitlines_aux (cur @ l) r"
proof (induction l arbitrary: cur)
  case Nil
  then show ?case by simp
next
  case (Cons a l)
  then have "\<not> is_linebreak a" by simp
  then have "a \<noteq> CHR 0x0D" by (auto simp: is_linebreak_def)
  with Cons show ?case by simp
qed

lemma splitlines_aux_join:
  "\<forall>l \<in> set ls. is_line l \<Longrightarrow> ls \<noteq> [] \<Longrightarrow> splitlines_aux [] (py_join [LF] ls) = ls"
proof (induction ls rule: induct_list012)
  case 1
  then show ?case by simp
next
  case (2 x)
  then have "splitlines_aux [] (x @ []) = splitlines_aux ([] @ x) []"
    by (intro splitlines_aux_line) (simp add: is_line_def)
  with 2 show ?case by (simp add: is_line_def)
next
  case (3 x y ys)
  from 3(3) have x: "x \<noteq> []" "\<forall>c \<in> set x. \<not> is_linebreak c"
    by (simp_all add: is_line_def)
  have "splitlines_aux [] (x @ [LF] @ py_join [LF] (y # ys))
      = splitlines_aux ([] @ x) ([LF] @ py_join [LF] (y # ys))"
    using x(2) by (rule splitlines_aux_line)
  also have "\<dots> = x # splitlines_aux [] (py_join [LF] (y # ys))"
    by (simp add: LF_def is_linebreak_def)
  also have "\<dots> = x # y # ys"
    using 3(2,3) by simp
  finally show ?case by simp
qed

lemma py_splitlines_join: "\<forall>l \<in> set ls. is_line l \<Longrightarrow> py_splitlines (py_join [LF] ls) = ls"
  by (cases "ls = []") (simp_all add: py_splitlines_def splitlines_aux_join)

lemma generate_fallback_jsonl_eq:
  "generate_fallback_jsonl rnd input_text n
     = Inr (py_join [LF] (map (\<lambda>i. fallback_line input_text (rnd i)) [0 ..< nat n]))"
  by (simp add: generate_fallback_jsonl_def list_ex_iff fallback_line_def json_valid_dumps)

lemma attempt_loop_all_fail:
  "attempts < max_attempts \<Longrightarrow>
   (\<And>i. attempts \<le> i \<Longrightarrow> i < max_attempts \<Longrightarrow> isl (run_attempt env i)) \<Longrightarrow>
   attempt_loop env input_text max_attempts attempts
     = map_sum id Some (generate_fallback_jsonl (draw env) input_text 10)"
proof (induction env input_text max_attempts attempts rule: attempt_loop.induct)
  case (1 env input_text max_attempts attempts)
  from 1(3)[of attempts] 1(2) obtain e where e: "run_attempt env attempts = Inl e"
    by (cases "run_attempt env attempts") auto
  show ?case
  proof (cases "max_attempts \<le> Suc attempts")
    case True
    with 1(2) e show ?thesis
      by (subst attempt_loop.simps) (simp add: generate_fallback_jsonl_eq)
  next
    case False
    then have "attempt_loop env input_text max_attempts (Suc attempts)
        = map_sum id Some (generate_fallback_jsonl (draw env) input_text 10)"
      using 1(2) e by (intro 1(1)[of e] 1(3)) simp_all
    with False 1(2) e show ?thesis
      by (subst attempt_loop.simps) simp
  qed
qed

section \<open>Fallback synthesis\<close>

text \<open>
  C6, as stated: two calls of \<open>generate_fallback_jsonl\<close> with the same arguments produce
  identical output. The templates are drawn with \<open>random.choice\<close>, and two calls that draw
  different templates differ.
\<close>

theorem generate_fallback_jsonl_differs:
  "generate_fallback_jsonl draws_zero ''data'' 1 \<noteq> generate_fallback_jsonl draws_one ''data'' 1"
  by code_simp

text \<open>
  C6, amended: \<open>generate_fallback_jsonl\<close> never raises and returns exactly \<open>min_examples\<close>
  lines (none for a negative number), each of them the serialisation of one of the three
  fixed templates filled with the input text and its summary; the output depends on the
  draws of \<open>random.choice\<close> only, so that two calls with the same arguments whose draws pick
  the same templates produce identical output.
\<close>

theorem generate_fallback_jsonl_draws:
  "\<exists>ls. generate_fallback_jsonl rnd input_text n = Inr (py_join [LF] ls) \<and>
     length ls = nat n \<and>
     (\<forall>l \<in> set ls. \<exists>t \<in> set fallback_templates.
        l = json_dumps (fill_template input_text (make_summary input_text) t)) \<and>
     ((\<forall>i < nat n. rnd' i mod 3 = rnd i mod 3) \<longrightarrow>
        generate_fallback_jsonl rnd' input_text n = generate_fallback_jsonl rnd input_text n)"
proof -
  let ?ls = "map (\<lambda>i. fallback_line input_text (rnd i)) [0 ..< nat n]"
  have len: "length fallback_templates = 3"
    by (simp add: fallback_templates_def)
  have "\<exists>t \<in> set fallback_templates.
          fallback_line input_text k = json_dumps (fill_template input_text (make_summary input_text) t)"
    for k
    unfolding fallback_line_def
    by (rule bexI[where x = "fallback_templates ! (k mod length fallback_templates)"])
       (simp_all add: len)
  then have "\<forall>l \<in> set ?ls. \<exists>t \<in> set fallback_templates.
        l = json_dumps (fill_template input_text (make_summary input_text) t)"
    by auto
  moreover have "generate_fallback_jsonl rnd' input_text n = generate_fallback_jsonl rnd input_text n"
    if "\<forall>i < nat n. rnd' i mod 3 = rnd i mod 3"
  proof -
    have "map (\<lambda>i. fallback_line input_text (rnd' i)) [0 ..< nat n] = ?ls"
      using that by (simp add: fallback_line_def len)
    then show ?thesis
      by (simp only: generate_fallback_jsonl_eq)
  qed
  moreover have "generate_fallback_jsonl rnd input_text n = Inr (py_join [LF] ?ls)"
    by (rule generate_fallback_jsonl_eq)
  moreover have "length ?ls = nat n" by simp
  ultimately show ?thesis by blast
qed

theorem generate_fallback_jsonl_draws_witness:
  "draws_three 0 mod 3 = draws_zero 0 mod 3 \<and> draws_three 1 mod 3 = draws_zero 1 mod 3 \<and>
   generate_fallback_jsonl draws_three ''data'' 2 = generate_fallback_jsonl draws_zero ''data'' 2"
proof -
  have h: "\<forall>i < nat 2. draws_three i mod 3 = draws_zero i mod 3"
    by (simp add: draws_three_def draws_zero_def)
  from generate_fallback_jsonl_draws[of draws_zero "''data''" 2 draws_three] h
  have "generate_fallback_jsonl draws_three ''data'' 2 = generate_fallback_jsonl draws_zero ''data'' 2"
    by blast
  then show ?thesis
    by (simp add: draws_three_def draws_zero_def)
qed

text \<open>
  C7. When every attempt fails (the API raises, or the response has fewer than 10
  non-blank lines, or one of its lines is not valid JSON), \<open>generate_synthetic_jsonl\<close>
  does not raise and returns at least 10 lines, each of which is valid JSON.
\<close>

theorem generate_synthetic_jsonl_fallback:
  assumes "0 < max_attempts"
    and "\<forall>i < max_attempts. isl (run_attempt env i)"
  shows "\<exists>ls. generate_synthetic_jsonl env chunks max_attempts = Inr (Some (py_join [LF] ls)) \<and>
           py_splitlines (py_join [LF] ls) = ls \<and> 10 \<le> length ls \<and>
           (\<forall>l \<in> set ls. json_valid l)"
proof -
  let ?t = "build_input_text chunks"
  let ?ls = "map (\<lambda>i. fallback_line ?t (draw env i)) [0 ..< nat 10]"
  have "attempt_loop env ?t max_attempts 0
      = map_sum id Some (generate_fallback_jsonl (draw env) ?t 10)"
    using assms by (intro attempt_loop_all_fail) simp_all
  then have "generate_synthetic_jsonl env chunks max_attempts = Inr (Some (py_join [LF] ?ls))"
    by (simp add: generate_synthetic_jsonl_def generate_fallback_jsonl_eq)
  moreover have "\<forall>l \<in> set ?ls. is_line l \<and> json_valid l"
    by (auto simp: fallback_line_def is_line_json_dumps json_valid_dumps)
  then have "py_splitlines (py_join [LF] ?ls) = ?ls" "\<forall>l \<in> set ?ls. json_valid l"
    by (simp_all add: py_splitlines_join)
  moreover have "10 \<le> length ?ls" by simp
  ultimately show ?thesis by blast
qed

lemma failing_env_attempts: "\<forall>i < 3. isl (run_attempt failing_env i)"
proof -
  have "isl (run_attempt failing_env 0)"
    by (simp add: run_attempt_def failing_env_def)
  moreover have "isl (run_attempt failing_env 1)"
    by code_simp
  moreover have "isl (run_attempt failing_env 2)"
    by code_simp
  moreover have "i = 0 \<or> i = 1 \<or> i = 2" if "i < 3" for i :: nat
    using that by arith
  ultimately show ?thesis by auto
qed

theorem generate_synthetic_jsonl_fallback_witness:
  "(0::nat) < 3 \<and> isl (run_attempt failing_env 0) \<and> isl (run_attempt failing_env 1) \<and>
   isl (run_attempt failing_env 2) \<and>
   (\<exists>ls. generate_synthetic_jsonl failing_env [''hello''] 3 = Inr (Some (py_join [LF] ls)) \<and>
          10 \<le> length ls \<and> (\<forall>l \<in> set ls. json_valid l))"
proof -
  have h1: "(0::nat) < 3" by simp
  from generate_synthetic_jsonl_fallback[OF h1 failing_env_attempts, of "[''hello'']"]
  obtain ls where "generate_synthetic_jsonl failing_env [''hello''] 3 = Inr (Some (py_join [LF] ls))"
    "10 \<le> length ls" "\<forall>l \<in> set ls. json_valid l"
    by blast
  moreover have "isl (run_attempt failing_env 0)" "isl (run_attempt failing_env 1)"
    "isl (run_attempt failing_env 2)"
    using failing_env_attempts by simp_all
  ultimately show ?thesis using h1 by blast
qed

section \<open>The session\<close>

lemma log_job_activity_clean:
  assumes "pending d = []"
  shows "documents (log_job_activity ok jid ev d) = documents d"
    and "jobs (log_job_activity ok jid ev d) = jobs d"
    and "finetuned_models (log_job_activity ok jid ev d) = finetuned_models d"
    and "pending (log_job_activity ok jid ev d) = []"
    and "activity (log_job_activity ok jid ev d)
           = activity d @ (if ok then [\<lparr>log_job_id = jid, event_type = ev\<rparr>] else [])"
  using assms
  by (simp_all add: log_job_activity_def db_commit_def db_add_def db_rollback_def)

lemma db_rollback_simps:
  "documents (db_rollback d) = documents d"
  "jobs (db_rollback d) = jobs d"
  "activity (db_rollback d) = activity d"
  "pending (db_rollback d) = []"
  by (simp_all add: db_rollback_def)

lemma create_document_record_ok:
  assumes "pending d = []" "commit_document_ok env"
  shows "fst (create_document_record env jid doc d) = Inr ()"
    and "documents (snd (create_document_record env jid doc d)) = documents d @ [doc]"
    and "jobs (snd (create_document_record env jid doc d)) = jobs d"
    and "pending (snd (create_document_record env jid doc d)) = []"
  using assms
  by (simp_all add: create_document_record_def db_commit_def db_add_def log_job_activity_clean)

lemma create_document_record_failed:
  assumes "pending d = []" "\<not> commit_document_ok env"
  shows "fst (create_document_record env jid doc d) = Inl DatabaseError"
    and "documents (snd (create_document_record env jid doc d)) = documents d"
    and "jobs (snd (create_document_record env jid doc d)) = jobs d"
    and "activity (snd (create_document_record env jid doc d)) = activity d"
  using assms
  by (simp_all add: create_document_record_def db_commit_def db_add_def)

section \<open>One file\<close>

lemma try_file_ok:
  assumes "pending d = []" "file_succeeds cfg jid bf fe"
  shows "fst (try_file cfg jid bf fe d) = Inr (fst (projr (file_result cfg jid bf fe)))"
    and "documents (snd (try_file cfg jid bf fe d)) = documents d @ [recorded_document cfg jid bf fe]"
    and "jobs (snd (try_file cfg jid bf fe d)) = jobs d"
    and "pending (snd (try_file cfg jid bf fe d)) = []"
proof -
  from assms(2) obtain a doc where r: "file_result cfg jid bf fe = Inr (a, doc)"
    by (cases "file_result cfg jid bf fe") (auto simp: file_succeeds_def)
  let ?d1 = "log_job_activity (log_started_ok (snd fe)) jid ''file_upload_started'' d"
  have p: "pending ?d1 = []" "documents ?d1 = documents d" "jobs ?d1 = jobs d"
    using assms(1) by (simp_all add: log_job_activity_clean)
  have c: "commit_document_ok (snd fe)"
    using assms(2) by (simp add: file_succeeds_def)
  have t: "try_file cfg jid bf fe d
      = (case create_document_record (snd fe) jid doc ?d1 of
           (Inl e, d2) \<Rightarrow> (Inl e, d2)
         | (Inr u, d2) \<Rightarrow> (Inr a, d2))"
    by (simp add: try_file_def r)
  obtain x d2 where x: "create_document_record (snd fe) jid doc ?d1 = (x, d2)"
    by (cases "create_document_record (snd fe) jid doc ?d1")
  with create_document_record_ok[OF p(1) c, of jid doc]
  have "x = Inr ()" "documents d2 = documents ?d1 @ [doc]" "jobs d2 = jobs ?d1" "pending d2 = []"
    by simp_all
  with t x p r
  show "fst (try_file cfg jid bf fe d) = Inr (fst (projr (file_result cfg jid bf fe)))"
    and "documents (snd (try_file cfg jid bf fe d)) = documents d @ [recorded_document cfg jid bf fe]"
    and "jobs (snd (try_file cfg jid bf fe d)) = jobs d"
    and "pending (snd (try_file cfg jid bf fe d)) = []"
    by (simp_all add: recorded_document_def)
qed

lemma try_file_failed:
  assumes "pending d = []" "\<not> file_succeeds cfg jid bf fe"
  shows "isl (fst (try_file cfg jid bf fe d))"
    and "documents (snd (try_file cfg jid bf fe d)) = documents d"
    and "jobs (snd (try_file cfg jid bf fe d)) = jobs d"
    and "activity (snd (try_file cfg jid bf fe d))
           = activity d @ (if log_started_ok (snd fe)
                           then [\<lparr>log_job_id = jid, event_type = ''file_upload_started''\<rparr>] else [])"
proof -
  let ?d1 = "log_job_activity (log_started_ok (snd fe)) jid ''file_upload_started'' d"
  have p: "pending ?d1 = []" "documents ?d1 = documents d" "jobs ?d1 = jobs d"
    "activity ?d1 = activity d @ (if log_started_ok (snd fe)
                           then [\<lparr>log_job_id = jid, event_type = ''file_upload_started''\<rparr>] else [])"
    using assms(1) by (simp_all add: log_job_activity_clean)
  have "isl (fst (try_file cfg jid bf fe d)) \<and>
        documents (snd (try_file cfg jid bf fe d)) = documents d \<and>
        jobs (snd (try_file cfg jid bf fe d)) = jobs d \<and>
        activity (snd (try_file cfg jid bf fe d)) = activity ?d1"
  proof (cases "file_result cfg jid bf fe")
    case (Inl e)
    then show ?thesis using p by (simp add: try_file_def)
  next
    case (Inr r)
    obtain a doc where r: "r = (a, doc)" by (cases r)
    from Inr assms(2) have c: "\<not> commit_document_ok (snd fe)"
      by (simp add: file_succeeds_def)
    have t: "try_file cfg jid bf fe d
        = (case create_document_record (snd fe) jid doc ?d1 of
             (Inl e, d2) \<Rightarrow> (Inl e, d2)
           | (Inr u, d2) \<Rightarrow> (Inr a, d2))"
      by (simp add: try_file_def Inr r)
    obtain x d2 where x: "create_document_record (snd fe) jid doc ?d1 = (x, d2)"
      by (cases "create_document_record (snd fe) jid doc ?d1")
    with create_document_record_failed[OF p(1) c, of jid doc]
    have "x = Inl DatabaseError" "documents d2 = documents ?d1" "jobs d2 = jobs ?d1"
      "activity d2 = activity ?d1"
      by simp_all
    with t x p show ?thesis by simp
  qed
  with p(4)
  show "isl (fst (try_file cfg jid bf fe d))"
    and "documents (snd (try_file cfg jid bf fe d)) = documents d"
    and "jobs (snd (try_file cfg jid bf fe d)) = jobs d"
    and "activity (snd (try_file cfg jid bf fe d))
           = activity d @ (if log_started_ok (snd fe)
                           then [\<lparr>log_job_id = jid, event_type = ''file_upload_started''\<rparr>] else [])"
    by simp_all
qed

section \<open>The loop over the files\<close>

lemma process_files_failed:
  assumes "pending d = []" "\<not> file_succeeds cfg jid bf fe"
  shows "fst (process_files cfg jid bf (fe # files) acc d) = Inl (HTTPException 500)"
    and "documents (snd (process_files cfg jid bf (fe # files) acc d)) = documents d"
    and "jobs (snd (process_files cfg jid bf (fe # files) acc d)) = jobs d"
    and "activity (snd (process_files cfg jid bf (fe # files) acc d))
           = activity d
             @ (if log_started_ok (snd fe)
                then [\<lparr>log_job_id = jid, event_type = ''file_upload_started''\<rparr>] else [])
             @ (if log_failed_ok (snd fe)
                then [\<lparr>log_job_id = jid, event_type = ''file_processing_failed''\<rparr>] else [])"
proof -
  obtain x d' where x: "try_file cfg jid bf fe d = (x, d')"
    by (cases "try_file cfg jid bf fe d")
  with try_file_failed[OF assms, of ] obtain e where e: "x = Inl e"
    and d': "documents d' = documents d" "jobs d' = jobs d"
      "activity d' = activity d @ (if log_started_ok (snd fe)
                           then [\<lparr>log_job_id = jid, event_type = ''file_upload_started''\<rparr>] else [])"
    by (cases x) auto
  let ?r = "db_rollback d'"
  have r: "pending ?r = []" by (simp add: db_rollback_simps)
  have "process_files cfg jid bf (fe # files) acc d
      = (Inl (HTTPException 500),
         log_job_activity (log_failed_ok (snd fe)) jid ''file_processing_failed'' ?r)"
    by (simp add: x e)
  then show "fst (process_files cfg jid bf (fe # files) acc d) = Inl (HTTPException 500)"
    and "documents (snd (process_files cfg jid bf (fe # files) acc d)) = documents d"
    and "jobs (snd (process_files cfg jid bf (fe # files) acc d)) = jobs d"
    and "activity (snd (process_files cfg jid bf (fe # files) acc d))
           = activity d
             @ (if log_started_ok (snd fe)
                then [\<lparr>log_job_id = jid, event_type = ''file_upload_started''\<rparr>] else [])
             @ (if log_failed_ok (snd fe)
                then [\<lparr>log_job_id = jid, event_type = ''file_processing_failed''\<rparr>] else [])"
    using d' by (simp_all add: log_job_activity_clean[OF r] db_rollback_simps)
qed

lemma process_files_prefix:
  assumes "pending d = []" "\<forall>fe \<in> set pre. file_succeeds cfg jid bf fe"
  shows "\<exists>acc' d'. process_files cfg jid bf (pre @ rest) acc d
                      = process_files cfg jid bf rest acc' d' \<and>
           documents d' = documents d @ map (recorded_document cfg jid bf) pre \<and>
           jobs d' = jobs d \<and> pending d' = [] \<and>
           snd (snd acc') = snd (snd acc) + length pre"
  using assms
proof (induction pre arbitrary: acc d)
  case Nil
  then show ?case
    by (intro exI[of _ acc] exI[of _ d]) simp
next
  case (Cons fe pre)
  from Cons.prems have s: "file_succeeds cfg jid bf fe" by simp
  obtain x d1 where x: "try_file cfg jid bf fe d = (x, d1)"
    by (cases "try_file cfg jid bf fe d")
  with try_file_ok[OF Cons.prems(1) s] obtain a where a: "x = Inr a"
    and d1: "documents d1 = documents d @ [recorded_document cfg jid bf fe]"
      "jobs d1 = jobs d" "pending d1 = []"
    by (cases x) auto
  let ?acc1 = "((if truthy (fst a) then fst acc @ [the (fst a)] else fst acc),
                fst (snd acc) @ snd a, Suc (snd (snd acc)))"
  have step: "process_files cfg jid bf ((fe # pre) @ rest) acc d
      = process_files cfg jid bf (pre @ rest) ?acc1 d1"
    by (simp add: x a)
  from Cons.IH[OF d1(3), of ?acc1] Cons.prems(2)
  obtain acc' d' where
    "process_files cfg jid bf (pre @ rest) ?acc1 d1 = process_files cfg jid bf rest acc' d'"
    "documents d' = documents d1 @ map (recorded_document cfg jid bf) pre"
    "jobs d' = jobs d1" "pending d' = []" "snd (snd acc') = snd (snd ?acc1) + length pre"
    by auto
  with step d1 show ?case
    by (intro exI[of _ acc'] exI[of _ d']) simp
qed

section \<open>A batch with a failing file\<close>

lemma fold_max_ge: "a \<le> fold max ids a \<and> (\<forall>x \<in> set ids. x \<le> fold max ids (a :: nat))"
proof (induction ids arbitrary: a)
  case Nil
  then show ?case by simp
next
  case (Cons i ids)
  from Cons.IH[of "max i a"] show ?case by auto
qed

lemma next_id_fresh: "j \<in> set rows \<Longrightarrow> job_id j < next_id (map job_id rows)"
  using fold_max_ge[of 0 "map job_id rows"] by (auto simp: next_id_def less_Suc_eq_le)

lemma create_job_ok:
  assumes "pending d = []" "commit_job_ok env"
  shows "fst (create_job env name n d) = Inr (pending_job (next_id (map job_id (jobs d))) name n)"
    and "jobs (snd (create_job env name n d))
           = jobs d @ [pending_job (next_id (map job_id (jobs d))) name n]"
    and "documents (snd (create_job env name n d)) = documents d"
    and "pending (snd (create_job env name n d)) = []"
  using assms
  by (simp_all add: create_job_def Let_def db_commit_def db_add_def log_job_activity_clean)

lemma upload_files_failed_state:
  assumes "pending d = []" "commit_job_ok env" "makedirs env = None"
    and "jid = next_id (map job_id (jobs d))" "bf = folder_name jid name"
    and "\<forall>fe \<in> set pre. file_succeeds cfg jid bf fe"
    and "\<not> file_succeeds cfg jid bf bad"
  shows "fst (upload_files cfg env name (pre @ bad # post) d) = Inl (HTTPException 500)"
    and "documents (snd (upload_files cfg env name (pre @ bad # post) d))
           = documents d @ map (recorded_document cfg jid bf) pre"
    and "jobs (snd (upload_files cfg env name (pre @ bad # post) d))
           = jobs d @ [pending_job jid name (length (pre @ bad # post))]"
    and "log_failed_ok (snd bad) \<Longrightarrow>
           last (activity (snd (upload_files cfg env name (pre @ bad # post) d)))
             = \<lparr>log_job_id = jid, event_type = ''file_processing_failed''\<rparr>"
proof -
  define files where "files = pre @ bad # post"
  have ne: "files \<noteq> []" by (simp add: files_def)
  let ?j = "pending_job jid name (length files)"
  obtain x d1 where c: "create_job env name (length files) d = (x, d1)"
    by (cases "create_job env name (length files) d")
  with create_job_ok[OF assms(1,2), of name "length files"] assms(4)
  have x: "x = Inr ?j" and d1: "jobs d1 = jobs d @ [?j]" "documents d1 = documents d"
    "pending d1 = []"
    by simp_all
  have g: "get_folders cfg env ?j name = Inr (path_join (local_storage_folder cfg) bf, bf)"
    using assms(3,5) by (simp add: get_folders_def pending_job_def)
  have jid: "job_id ?j = jid"
    by (simp add: pending_job_def)
  from process_files_prefix[OF d1(3) assms(6), of "bad # post" "([], [], 0)"]
  obtain acc' d' where pf:
    "process_files cfg jid bf files ([], [], 0) d1 = process_files cfg jid bf (bad # post) acc' d'"
    "documents d' = documents d1 @ map (recorded_document cfg jid bf) pre"
    "jobs d' = jobs d1" "pending d' = []"
    unfolding files_def by blast
  define r where "r = process_files cfg jid bf (bad # post) acc' d'"
  from process_files_failed[OF pf(4) assms(7), of post acc']
  have f: "fst r = Inl (HTTPException 500)" "documents (snd r) = documents d'"
    "jobs (snd r) = jobs d'"
    "activity (snd r)
       = activity d'
         @ (if log_started_ok (snd bad)
            then [\<lparr>log_job_id = jid, event_type = ''file_upload_started''\<rparr>] else [])
         @ (if log_failed_ok (snd bad)
            then [\<lparr>log_job_id = jid, event_type = ''file_processing_failed''\<rparr>] else [])"
    unfolding r_def by simp_all
  have pr: "process_files cfg jid bf files ([], [], 0) d1 = (Inl (HTTPException 500), snd r)"
    using f(1) unfolding pf(1) r_def[symmetric] by (cases r) simp
  have c': "create_job env name (length files) d = (Inr ?j, d1)"
    using c x by simp
  have u: "upload_files cfg env name files d = (Inl (HTTPException 500), snd r)"
    by (simp add: upload_files_def ne c' g jid pr)
  show "fst (upload_files cfg env name (pre @ bad # post) d) = Inl (HTTPException 500)"
    using u by (simp add: files_def)
  show "documents (snd (upload_files cfg env name (pre @ bad # post) d))
           = documents d @ map (recorded_document cfg jid bf) pre"
    using u by (simp add: files_def f(2) pf(2) d1(2))
  show "jobs (snd (upload_files cfg env name (pre @ bad # post) d))
           = jobs d @ [pending_job jid name (length (pre @ bad # post))]"
    using u f(3) pf(3) d1(1) unfolding files_def by simp
  show "last (activity (snd (upload_files cfg env name (pre @ bad # post) d)))
             = \<lparr>log_job_id = jid, event_type = ''file_processing_failed''\<rparr>"
    if "log_failed_ok (snd bad)"
    using that u f(4) unfolding files_def by simp
qed

lemma file_a_succeeds: "file_succeeds local_cfg 1 ''job-1-demo'' file_a"
  by code_simp

lemma file_b_fails: "\<not> file_succeeds local_cfg 1 ''job-1-demo'' file_b"
  by code_simp

lemma demo_folder: "''job-1-demo'' = folder_name 1 ''demo''"
  by code_simp

lemma demo_id: "1 = next_id (map job_id (jobs empty_db))"
  by code_simp

text \<open>
  C1, as stated: when the second of three files fails to parse, no Document row exists
  for any file of the batch. The row of the first file was committed when it was
  created, and the rollback of the handler does not remove it.
\<close>

theorem upload_three_files_keeps_first:
  "fst (upload_files local_cfg ok_upload_env ''demo'' three_files empty_db) = Inl (HTTPException 500) \<and>
   map blob_path (documents (snd (upload_files local_cfg ok_upload_env ''demo'' three_files empty_db)))
     = [''local_storage/job-1-demo/a.txt'']"
  by code_simp

text \<open>
  C1, amended: when the processing of a file of the batch raises, \<open>upload_files\<close> raises
  the HTTP error 500 and the job is left as it was created, with status \<open>pending\<close>, not
  \<open>completed\<close>; the Document rows of the batch are those of the files processed before the
  failing one, and there is no row for the failing file, for the files after it or for
  the aggregate.
\<close>

theorem upload_files_failed_documents:
  assumes "pending d = []" "commit_job_ok env" "makedirs env = None"
    and "jid = next_id (map job_id (jobs d))" "bf = folder_name jid name"
    and "\<forall>fe \<in> set pre. file_succeeds cfg jid bf fe"
    and "\<not> file_succeeds cfg jid bf bad"
  shows "fst (upload_files cfg env name (pre @ bad # post) d) = Inl (HTTPException 500) \<and>
         documents (snd (upload_files cfg env name (pre @ bad # post) d))
           = documents d @ map (recorded_document cfg jid bf) pre \<and>
         jobs (snd (upload_files cfg env name (pre @ bad # post) d))
           = jobs d @ [pending_job jid name (length (pre @ bad # post))] \<and>
         status (pending_job jid name (length (pre @ bad # post))) = ''pending''"
  using upload_files_failed_state(1,2,3)[OF assms] by (simp add: pending_job_def)

theorem upload_files_failed_documents_witness:
  "fst (upload_files local_cfg ok_upload_env ''demo'' ([file_a] @ file_b # [file_c]) empty_db)
     = Inl (HTTPException 500) \<and>
   documents (snd (upload_files local_cfg ok_upload_env ''demo'' ([file_a] @ file_b # [file_c]) empty_db))
     = [recorded_document local_cfg 1 ''job-1-demo'' file_a] \<and>
   jobs (snd (upload_files local_cfg ok_upload_env ''demo'' ([file_a] @ file_b # [file_c]) empty_db))
     = [pending_job 1 ''demo'' 3]"
proof -
  have h1: "pending empty_db = []" by (simp add: empty_db_def)
  have h2: "commit_job_ok ok_upload_env" "makedirs ok_upload_env = None"
    by (simp_all add: ok_upload_env_def)
  have h3: "\<forall>fe \<in> set [file_a]. file_succeeds local_cfg 1 ''job-1-demo'' fe"
    using file_a_succeeds by simp
  from upload_files_failed_documents[OF h1 h2 demo_id demo_folder h3 file_b_fails, of "[file_c]"]
  show ?thesis by (simp add: empty_db_def numeral_3_eq_3)
qed

text \<open>
  C3, as stated: when the loop over the files raises, the status of the job becomes
  \<open>failed\<close> before the error surfaces. The status is still \<open>pending\<close>.
\<close>

theorem upload_three_files_stays_pending:
  "fst (upload_files local_cfg ok_upload_env ''demo'' three_files empty_db) = Inl (HTTPException 500) \<and>
   map status (jobs (snd (upload_files local_cfg ok_upload_env ''demo'' three_files empty_db)))
     = [''pending'']"
  by code_simp

text \<open>
  C3, amended: when the loop over the files raises, the error surfaces as the HTTP error
  500 and the row of the job still has the status \<open>pending\<close>; \<open>upload_files\<close> writes no
  other status than \<open>pending\<close> and \<open>completed\<close>. The failure is recorded in the activity log,
  as a \<open>file_processing_failed\<close> entry, when that write is accepted.
\<close>

theorem upload_files_failed_status:
  assumes "pending d = []" "commit_job_ok env" "makedirs env = None"
    and "jid = next_id (map job_id (jobs d))" "bf = folder_name jid name"
    and "\<forall>fe \<in> set pre. file_succeeds cfg jid bf fe"
    and "\<not> file_succeeds cfg jid bf bad"
  shows "fst (upload_files cfg env name (pre @ bad # post) d) = Inl (HTTPException 500) \<and>
         map status (filter (\<lambda>j. job_id j = jid)
                       (jobs (snd (upload_files cfg env name (pre @ bad # post) d))))
           = [''pending''] \<and>
         (log_failed_ok (snd bad) \<longrightarrow>
            last (activity (snd (upload_files cfg env name (pre @ bad # post) d)))
              = \<lparr>log_job_id = jid, event_type = ''file_processing_failed''\<rparr>)"
proof -
  have "filter (\<lambda>j. job_id j = jid) (jobs d) = []"
    using next_id_fresh[of _ "jobs d"] assms(4) by (fastforce simp: filter_empty_conv)
  then show ?thesis
    using upload_files_failed_state[OF assms, of post]
    by (simp add: pending_job_def)
qed

theorem upload_files_failed_status_witness:
  "fst (upload_files local_cfg ok_upload_env ''demo'' ([file_a] @ file_b # [file_c]) empty_db)
     = Inl (HTTPException 500) \<and>
   map status (filter (\<lambda>j. job_id j = 1)
      (jobs (snd (upload_files local_cfg ok_upload_env ''demo'' ([file_a] @ file_b # [file_c]) empty_db))))
     = [''pending''] \<and>
   last (activity (snd (upload_files local_cfg ok_upload_env ''demo'' ([file_a] @ file_b # [file_c]) empty_db)))
     = \<lparr>log_job_id = 1, event_type = ''file_processing_failed''\<rparr>"
proof -
  have h1: "pending empty_db = []" by (simp add: empty_db_def)
  have h2: "commit_job_ok ok_upload_env" "makedirs ok_upload_env = None"
    by (simp_all add: ok_upload_env_def)
  have h3: "\<forall>fe \<in> set [file_a]. file_succeeds local_cfg 1 ''job-1-demo'' fe"
    using file_a_succeeds by simp
  have h4: "log_failed_ok (snd file_b)"
    by (simp add: file_b_def ok_env_def)
  from upload_files_failed_status[OF h1 h2 demo_id demo_folder h3 file_b_fails, of "[file_c]"] h4
  show ?thesis by simp
qed


section \<open>Failures while uploading the artifacts of a file\<close>

lemma upload_artifacts_jsonl_failure:
  assumes "truthy jsonl" "put_jsonl env = Some e"
  shows "upload_artifacts cfg env file jid (jsonl, chunks) bf = Inl e"
  using assms
  by (auto simp: upload_artifacts_def upload_to_blob_async_def truthy_def split: option.splits)

lemma upload_artifacts_eq:
  assumes "truthy jsonl \<longrightarrow> put_jsonl env = None"
  shows "upload_artifacts cfg env file jid (jsonl, chunks) bf
     = Inr ((if truthy jsonl
             then Some (stored_path cfg ''artifacts''
                    (bf @ ''/jsonl/'' @ string_of_nat jid @ ''_'' @ filename file @ ''_combined.jsonl''))
             else None),
            (if chunks \<noteq> [] then upload_index cfg env file jid chunks bf else (None, None)))"
  using assms
  by (auto simp: upload_artifacts_def upload_to_blob_async_def truthy_def split: option.splits)

text \<open>
  C2, as stated: a failure while building the index of a file propagates out of the
  processing of the file and is fatal to the batch. With a file whose index cannot be
  built, \<open>_upload_artifacts\<close> returns, the loop over the files returns, and the row of the
  file is recorded without index path.
\<close>

theorem upload_unindexed_file_recorded:
  "build_index (snd unindexed_file) = Some ProviderError \<and>
   upload_artifacts local_cfg (snd unindexed_file) (fst unindexed_file) 1
       (Some ''{}'', [''alpha beta'']) ''job-1-demo''
     = Inr (Some ''local_storage/job-1-demo/jsonl/1_a.txt_combined.jsonl'', None, None) \<and>
   \<not> isl (fst (process_files local_cfg 1 ''job-1-demo'' [unindexed_file] ([], [], 0) empty_db)) \<and>
   map faiss_index_blob_path
     (documents (snd (process_files local_cfg 1 ''job-1-demo'' [unindexed_file] ([], [], 0) empty_db)))
     = [None]"
  by code_simp

lemma upload_index_eq:
  "upload_index cfg env file jid chunks bf
     = (if index_stored env chunks
        then (Some (stored_path cfg ''artifacts'' (faiss_name bf jid file)),
              if put_chunks env = None
              then Some (stored_path cfg ''artifacts'' (chunks_name bf jid file)) else None)
        else (None, None))"
  by (auto simp: upload_index_def index_stored_def create_faiss_index_def upload_to_blob_async_def
      faiss_name_def chunks_name_def split: sum.splits option.splits)

lemma process_file_cong:
  "extracted e1 = extracted e2 \<Longrightarrow> generator e1 = generator e2 \<Longrightarrow>
     process_file e1 t = process_file e2 t"
  by (auto simp: process_file_def split: sum.splits)

lemma demo_artifacts:
  "process_file (ok_env ''alpha beta'') ''text/plain''
     = Inr (Some (py_join [LF] (replicate 10 ''{}'')), [''alpha beta''])"
  by code_simp

text \<open>
  C2, amended: for a file that has been stored, fetched back and parsed, a failure of the
  upload of its JSONL propagates out of the processing of the file and is fatal to the
  batch: the loop raises the HTTP error 500 and no Document row is added. When the JSONL
  is uploaded (or there is none) and the commit of the record is accepted, no failure of
  the index or of the chunk list is fatal: the file is recorded, it counts, its artifacts
  go into the aggregate and the loop goes on with the next file. The record has the index
  path exactly when the index was built, read and uploaded, and the chunk path exactly
  when, besides, the chunk list was uploaded: a failure while building, reading or
  uploading the index leaves both paths null, and a failure of the upload of the chunk
  list alone leaves the index path and a null chunk path.
\<close>

theorem index_failure_is_caught:
  assumes "pending d = []"
    and "upload_to_blob_async cfg (put_original env) (content file)
           (bf @ ''/'' @ filename file) ''documents'' = Inr p"
    and "download_from_blob_async cfg (get_original env) (local_exists env) p ''documents'' = Inr lp"
    and "local_exists env"
    and "process_file env (content_type file) = Inr (jsonl, chunks)"
  shows "(truthy jsonl \<and> put_jsonl env = Some e \<longrightarrow>
            file_result cfg jid bf (file, env) = Inl e \<and>
            fst (process_files cfg jid bf ((file, env) # rest) acc d) = Inl (HTTPException 500) \<and>
            documents (snd (process_files cfg jid bf ((file, env) # rest) acc d)) = documents d) \<and>
         ((truthy jsonl \<longrightarrow> put_jsonl env = None) \<and> commit_document_ok env \<longrightarrow>
            (\<exists>d'. process_files cfg jid bf ((file, env) # rest) acc d
                    = process_files cfg jid bf rest
                        ((if truthy jsonl then fst acc @ [the jsonl] else fst acc),
                         fst (snd acc) @ chunks, Suc (snd (snd acc))) d' \<and>
                  documents d' = documents d @
                    [\<lparr>doc_job_id = jid, blob_path = p, file_type = content_type file,
                      jsonl_blob_path =
                        (if truthy jsonl
                         then Some (stored_path cfg ''artifacts'' (jsonl_name bf jid file))
                         else None),
                      faiss_index_blob_path =
                        (if index_stored env chunks
                         then Some (stored_path cfg ''artifacts'' (faiss_name bf jid file))
                         else None),
                      chunks_blob_path =
                        (if index_stored env chunks \<and> put_chunks env = None
                         then Some (stored_path cfg ''artifacts'' (chunks_name bf jid file))
                         else None),
                      is_aggregated = False\<rparr>] \<and>
                  jobs d' = jobs d \<and> pending d' = []))"
proof -
  have r: "file_result cfg jid bf (file, env)
      = (case upload_artifacts cfg env file jid (jsonl, chunks) bf of
           Inl e \<Rightarrow> Inl e
         | Inr blobs \<Rightarrow> Inr ((jsonl, chunks), file_document jid p (content_type file) blobs))"
    using assms(2-5) by (simp add: file_result_def)
  have fatal: "file_result cfg jid bf (file, env) = Inl e \<and>
      fst (process_files cfg jid bf ((file, env) # rest) acc d) = Inl (HTTPException 500) \<and>
      documents (snd (process_files cfg jid bf ((file, env) # rest) acc d)) = documents d"
    if "truthy jsonl" "put_jsonl env = Some e"
  proof -
    have l: "file_result cfg jid bf (file, env) = Inl e"
      using upload_artifacts_jsonl_failure[OF that] by (simp add: r)
    then have "\<not> file_succeeds cfg jid bf (file, env)"
      by (simp add: file_succeeds_def)
    from process_files_failed(1,2)[OF assms(1) this, of rest acc] l show ?thesis
      by simp
  qed
  let ?doc = "\<lparr>doc_job_id = jid, blob_path = p, file_type = content_type file,
                jsonl_blob_path =
                  (if truthy jsonl
                   then Some (stored_path cfg ''artifacts'' (jsonl_name bf jid file))
                   else None),
                faiss_index_blob_path =
                  (if index_stored env chunks
                   then Some (stored_path cfg ''artifacts'' (faiss_name bf jid file))
                   else None),
                chunks_blob_path =
                  (if index_stored env chunks \<and> put_chunks env = None
                   then Some (stored_path cfg ''artifacts'' (chunks_name bf jid file))
                   else None),
                is_aggregated = False\<rparr>"
  let ?acc = "((if truthy jsonl then fst acc @ [the jsonl] else fst acc),
               fst (snd acc) @ chunks, Suc (snd (snd acc)))"
  have recorded: "\<exists>d'. process_files cfg jid bf ((file, env) # rest) acc d
                    = process_files cfg jid bf rest ?acc d' \<and>
                  documents d' = documents d @ [?doc] \<and> jobs d' = jobs d \<and> pending d' = []"
    if j: "truthy jsonl \<longrightarrow> put_jsonl env = None" and c: "commit_document_ok env"
  proof -
    have i: "index_stored env chunks \<Longrightarrow> chunks \<noteq> []"
      by (simp add: index_stored_def)
    have "upload_artifacts cfg env file jid (jsonl, chunks) bf
        = Inr (jsonl_blob_path ?doc, faiss_index_blob_path ?doc, chunks_blob_path ?doc)"
      using i by (auto simp: upload_artifacts_eq[OF j] upload_index_eq jsonl_name_def)
    then have fr: "file_result cfg jid bf (file, env) = Inr ((jsonl, chunks), ?doc)"
      by (simp add: r file_document_def)
    then have s: "file_succeeds cfg jid bf (file, env)"
      using c by (simp add: file_succeeds_def)
    obtain x d' where x: "try_file cfg jid bf (file, env) d = (x, d')"
      by (cases "try_file cfg jid bf (file, env) d")
    with try_file_ok[OF assms(1) s] fr
    have t: "x = Inr (jsonl, chunks)" "documents d' = documents d @ [?doc]" "jobs d' = jobs d"
      "pending d' = []"
      by (simp_all add: recorded_document_def)
    have "process_files cfg jid bf ((file, env) # rest) acc d
        = process_files cfg jid bf rest ?acc d'"
      by (simp add: x t(1))
    with t(2-4) show ?thesis by blast
  qed
  from fatal recorded show ?thesis by blast
qed

theorem index_failure_is_caught_witness:
  "fst (process_files local_cfg 1 ''job-1-demo'' [unstored_jsonl_file] ([], [], 0) empty_db)
     = Inl (HTTPException 500) \<and>
   (\<exists>d'. process_files local_cfg 1 ''job-1-demo'' [unindexed_file] ([], [], 0) empty_db
            = (Inr ([py_join [LF] (replicate 10 ''{}'')], [''alpha beta''], 1), d') \<and>
          map faiss_index_blob_path (documents d') = [None] \<and>
          map chunks_blob_path (documents d') = [None]) \<and>
   (\<exists>d'. process_files local_cfg 1 ''job-1-demo'' [unchunked_file] ([], [], 0) empty_db
            = (Inr ([py_join [LF] (replicate 10 ''{}'')], [''alpha beta''], 1), d') \<and>
          map faiss_index_blob_path (documents d')
            = [Some ''local_storage/job-1-demo/faiss/1_a.txt_index.bin''] \<and>
          map chunks_blob_path (documents d') = [None])"
proof -
  let ?f = "text_file ''a.txt'' ''alpha beta''"
  let ?e1 = "(ok_env ''alpha beta'')\<lparr>put_jsonl := Some ProviderError\<rparr>"
  let ?e2 = "(ok_env ''alpha beta'')\<lparr>build_index := Some ProviderError\<rparr>"
  let ?e3 = "(ok_env ''alpha beta'')\<lparr>put_chunks := Some ProviderError\<rparr>"
  let ?p = "''local_storage/job-1-demo/a.txt''"
  let ?l = "py_join [LF] (replicate 10 ''{}'')"
  let ?acc = "([], [], 0) :: string list \<times> string list \<times> nat"
  have h1: "pending empty_db = []" by (simp add: empty_db_def)
  have u: "upload_to_blob_async local_cfg (put_original env) (content ?f)
             (''job-1-demo'' @ ''/'' @ filename ?f) ''documents'' = Inr ?p"
    if "put_original env = None" for env
    unfolding that by code_simp
  have g: "download_from_blob_async local_cfg (get_original env) (local_exists env) ?p ''documents''
             = Inr ?p"
    if "get_original env = None" "local_exists env" for env
    using that(2) unfolding that(1) by (simp add: eqTrueI) code_simp
  have a: "process_file env (content_type ?f) = Inr (Some ?l, [''alpha beta''])"
    if "extracted env = extracted (ok_env ''alpha beta'')"
      "generator env = generator (ok_env ''alpha beta'')" for env
    using demo_artifacts process_file_cong[OF that, of "''text/plain''"]
    by (simp add: text_file_def)
  have t: "truthy (Some ?l)" by code_simp
  have fp: "stored_path local_cfg ''artifacts'' (faiss_name ''job-1-demo'' 1 ?f)
      = ''local_storage/job-1-demo/faiss/1_a.txt_index.bin''"
    by code_simp
  have acc: "((if truthy (Some ?l) then fst ?acc @ [the (Some ?l)] else fst ?acc),
              fst (snd ?acc) @ [''alpha beta''], Suc (snd (snd ?acc)))
             = ([?l], [''alpha beta''], 1)"
    using t by simp
  note thm1 = index_failure_is_caught[where e = ProviderError and jid = 1 and rest = "[]"
      and acc = ?acc, OF h1 u g _ a, of ?e1]
  note thm2 = index_failure_is_caught[where e = ProviderError and jid = 1 and rest = "[]"
      and acc = ?acc, OF h1 u g _ a, of ?e2]
  note thm3 = index_failure_is_caught[where e = ProviderError and jid = 1 and rest = "[]"
      and acc = ?acc, OF h1 u g _ a, of ?e3]
  have c1: "fst (process_files local_cfg 1 ''job-1-demo'' [(?f, ?e1)] ?acc empty_db)
      = Inl (HTTPException 500)"
  proof -
    have "truthy (Some ?l) \<and> put_jsonl ?e1 = Some ProviderError"
      using t by simp
    with thm1 show ?thesis
      by (simp add: ok_env_def del: process_files.simps)
  qed
  have c2: "\<exists>d'. process_files local_cfg 1 ''job-1-demo'' [(?f, ?e2)] ?acc empty_db
            = (Inr ([?l], [''alpha beta''], 1), d') \<and>
          map faiss_index_blob_path (documents d') = [None] \<and>
          map chunks_blob_path (documents d') = [None]"
  proof -
    have "(truthy (Some ?l) \<longrightarrow> put_jsonl ?e2 = None) \<and> commit_document_ok ?e2"
      by (simp add: ok_env_def)
    moreover have "\<not> index_stored ?e2 [''alpha beta'']"
      by (simp add: index_stored_def)
    ultimately obtain d' where
      "process_files local_cfg 1 ''job-1-demo'' [(?f, ?e2)] ?acc empty_db
         = process_files local_cfg 1 ''job-1-demo'' [] ([?l], [''alpha beta''], 1) d'"
      "map faiss_index_blob_path (documents d') = [None]"
      "map chunks_blob_path (documents d') = [None]"
      using thm2 t unfolding acc
      by (auto simp: ok_env_def empty_db_def simp del: process_files.simps)
    then show ?thesis
      by (intro exI[of _ d']) (simp del: process_files.simps(2))
  qed
  have c3: "\<exists>d'. process_files local_cfg 1 ''job-1-demo'' [(?f, ?e3)] ?acc empty_db
            = (Inr ([?l], [''alpha beta''], 1), d') \<and>
          map faiss_index_blob_path (documents d')
            = [Some ''local_storage/job-1-demo/faiss/1_a.txt_index.bin''] \<and>
          map chunks_blob_path (documents d') = [None]"
  proof -
    have "(truthy (Some ?l) \<longrightarrow> put_jsonl ?e3 = None) \<and> commit_document_ok ?e3"
      by (simp add: ok_env_def)
    moreover have "index_stored ?e3 [''alpha beta'']" "put_chunks ?e3 \<noteq> None"
      by (simp_all add: index_stored_def ok_env_def)
    ultimately obtain d' where
      "process_files local_cfg 1 ''job-1-demo'' [(?f, ?e3)] ?acc empty_db
         = process_files local_cfg 1 ''job-1-demo'' [] ([?l], [''alpha beta''], 1) d'"
      "map faiss_index_blob_path (documents d')
         = [Some (stored_path local_cfg ''artifacts'' (faiss_name ''job-1-demo'' 1 ?f))]"
      "map chunks_blob_path (documents d') = [None]"
      using thm3 t unfolding acc
      by (auto simp: ok_env_def empty_db_def simp del: process_files.simps)
    then show ?thesis
      unfolding fp by (intro exI[of _ d']) (simp del: process_files.simps(2))
  qed
  from c1 c2 c3 show ?thesis
    by (simp only: unstored_jsonl_file_def unindexed_file_def unchunked_file_def)
qed

section \<open>A file without chunks\<close>

text \<open>
  C4, as stated: for every file whose parse yields no chunk, such as an empty text file,
  the upload succeeds for that file. An empty file is refused when its bytes are
  stored, before it is parsed, and the batch fails without any Document row.
\<close>

theorem upload_empty_file_fails:
  "chunk_text (content (fst empty_file)) 1000 = Inr [] \<and>
   fst (upload_files local_cfg ok_upload_env ''demo'' [empty_file] empty_db) = Inl (HTTPException 500) \<and>
   documents (snd (upload_files local_cfg ok_upload_env ''demo'' [empty_file] empty_db)) = []"
  by code_simp

text \<open>
  C4, amended: for every uploaded file that is not empty and whose parse yields no chunk
  (a text file of blanks), when its bytes are stored and fetched back and the commit is
  accepted, the upload succeeds for that file: a non-aggregated Document record with null
  artifact paths is created, the document count grows by one, and the aggregated JSONL
  and chunks are unchanged.
\<close>

theorem zero_chunk_file_recorded:
  assumes "pending d = []"
    and "content file \<noteq> []" "put_original env = None"
    and "download_from_blob_async cfg (get_original env) (local_exists env)
           (stored_path cfg ''documents'' (bf @ ''/'' @ filename file)) ''documents'' = Inr lp"
    and "local_exists env"
    and "content_type file \<in> set supported_types" "extracted env = Some t"
    and "chunk_text t 1000 = Inr []"
    and "commit_document_ok env"
  shows "\<exists>d'. process_files cfg jid bf ((file, env) # rest) (aj, ac, n) d
               = process_files cfg jid bf rest (aj, ac, Suc n) d' \<and>
          documents d' = documents d @
            [\<lparr>doc_job_id = jid,
              blob_path = stored_path cfg ''documents'' (bf @ ''/'' @ filename file),
              file_type = content_type file, jsonl_blob_path = None,
              faiss_index_blob_path = None, chunks_blob_path = None, is_aggregated = False\<rparr>] \<and>
          jobs d' = jobs d \<and> pending d' = []"
proof -
  let ?doc = "\<lparr>doc_job_id = jid,
              blob_path = stored_path cfg ''documents'' (bf @ ''/'' @ filename file),
              file_type = content_type file, jsonl_blob_path = None,
              faiss_index_blob_path = None, chunks_blob_path = None, is_aggregated = False\<rparr>"
  have p: "process_file env (content_type file) = Inr (None, [])"
    using assms(6,7,8) by (simp add: process_file_def parse_file_def)
  have u: "upload_to_blob_async cfg (put_original env) (content file)
             (bf @ ''/'' @ filename file) ''documents''
           = Inr (stored_path cfg ''documents'' (bf @ ''/'' @ filename file))"
    using assms(2,3) by (simp add: upload_to_blob_async_def)
  have a: "upload_artifacts cfg env file jid (None, []) bf = Inr (None, None, None)"
    by (simp add: upload_artifacts_def truthy_def)
  have r: "file_result cfg jid bf (file, env) = Inr ((None, []), ?doc)"
    using assms(4,5) u p a by (simp add: file_result_def file_document_def)
  then have s: "file_succeeds cfg jid bf (file, env)"
    using assms(9) by (simp add: file_succeeds_def)
  obtain x d' where x: "try_file cfg jid bf (file, env) d = (x, d')"
    by (cases "try_file cfg jid bf (file, env) d")
  with try_file_ok[OF assms(1) s] r
  have "x = Inr (None, [])" "documents d' = documents d @ [?doc]" "jobs d' = jobs d"
    "pending d' = []"
    by (simp_all add: recorded_document_def)
  then show ?thesis
    by (intro exI[of _ d']) (simp add: x truthy_def)
qed

theorem zero_chunk_file_recorded_witness:
  "\<exists>d'. process_files local_cfg 1 ''job-1-demo'' [blank_file] ([], [], 0) empty_db
           = (Inr ([], [], 1), d') \<and>
         documents d' =
           [\<lparr>doc_job_id = 1, blob_path = ''local_storage/job-1-demo/blank.txt'',
             file_type = ''text/plain'', jsonl_blob_path = None,
             faiss_index_blob_path = None, chunks_blob_path = None, is_aggregated = False\<rparr>]"
proof -
  let ?f = "text_file ''blank.txt'' ''  ''"
  let ?e = "ok_env ''  ''"
  let ?p = "''local_storage/job-1-demo/blank.txt''"
  have h1: "pending empty_db = []" by (simp add: empty_db_def)
  have h2: "content ?f \<noteq> []" "put_original ?e = None" "local_exists ?e"
    "extracted ?e = Some ''  ''" "commit_document_ok ?e"
    by (simp_all add: text_file_def ok_env_def)
  have sp: "stored_path local_cfg ''documents'' (''job-1-demo'' @ ''/'' @ filename ?f) = ?p"
    by code_simp
  have h3: "download_from_blob_async local_cfg (get_original ?e) (local_exists ?e)
           (stored_path local_cfg ''documents'' (''job-1-demo'' @ ''/'' @ filename ?f)) ''documents''
           = Inr ?p"
    by code_simp
  have h4: "content_type ?f \<in> set supported_types"
    by code_simp
  have h5: "chunk_text ''  '' 1000 = Inr []"
    by code_simp
  from zero_chunk_file_recorded[OF h1 h2(1,2) h3 h2(3) h4 h2(4) h5 h2(5),
      of 1 "[]" "[]" "[]" 0]
  obtain d' where d:
    "process_files local_cfg 1 ''job-1-demo'' [(?f, ?e)] ([], [], 0) empty_db
       = process_files local_cfg 1 ''job-1-demo'' [] ([], [], Suc 0) d'"
    "documents d' = documents empty_db @
            [\<lparr>doc_job_id = 1,
              blob_path = stored_path local_cfg ''documents'' (''job-1-demo'' @ ''/'' @ filename ?f),
              file_type = content_type ?f, jsonl_blob_path = None,
              faiss_index_blob_path = None, chunks_blob_path = None, is_aggregated = False\<rparr>]"
    by blast
  have e: "process_files local_cfg 1 ''job-1-demo'' [] ([], [], Suc 0) d' = (Inr ([], [], 1), d')"
    by simp
  have b: "blank_file = (?f, ?e)"
    by (simp add: blank_file_def)
  have "documents d' =
           [\<lparr>doc_job_id = 1, blob_path = ?p,
             file_type = ''text/plain'', jsonl_blob_path = None,
             faiss_index_blob_path = None, chunks_blob_path = None, is_aggregated = False\<rparr>]"
    unfolding d(2) sp by (simp add: empty_db_def text_file_def)
  moreover have "process_files local_cfg 1 ''job-1-demo'' [blank_file] ([], [], 0) empty_db
           = (Inr ([], [], 1), d')"
    unfolding b d(1) e by (rule refl)
  ultimately show ?thesis by blast
qed

end
